theory Spec2Isabelle
  imports Main
begin

section \<open>Time codec (clip_creator.py: time_to_seconds, seconds_to_time)\<close>

text \<open>
  Exceptions are values. Only the classes that the handlers of the two scripts tell
  apart are kept: \<open>ValueError\<close> (raised by \<open>int()\<close> on a malformed literal, the
  argument is the offending text), \<open>HttpError\<close> of googleapiclient (status and body),
  \<open>HttpLib2Error\<close> and \<open>OSError\<close> (\<open>IOError\<close> is the same class in Python 3; the
  argument is \<open>str(e)\<close>), and any other subclass of \<open>Exception\<close>.
\<close>

datatype exn =
    ValueError string
  | HttpError nat string
  | HttpLib2Error string
  | OSError string
  | OtherException string

text \<open>
  \<open>int(text)\<close> in base ten on ASCII text: surrounding white space (tab, line feed,
  vertical tab, form feed, carriage return, space) is dropped, one sign is allowed, then
  decimal digits, where a single underscore may stand between two digits. Text outside
  ASCII (other white space, other decimal digits) is not modelled. CPython refuses to
  convert between text and an integer of more than 4300 decimal digits, in both
  directions, with a \<open>ValueError\<close>.
\<close>

definition INT_MAX_STR_DIGITS :: nat where
  "INT_MAX_STR_DIGITS = 4300"

definition digit_limit_error :: exn where
  "digit_limit_error = ValueError ''Exceeds the limit (4300 digits) for integer string conversion''"

definition is_space :: "char \<Rightarrow> bool" where
  "is_space c = ((of_char c :: nat) \<in> set [9, 10, 11, 12, 13, 32])"

definition is_digit :: "char \<Rightarrow> bool" where
  "is_digit c = (48 \<le> (of_char c :: nat) \<and> (of_char c :: nat) \<le> 57)"

definition digit_val :: "char \<Rightarrow> nat" where
  "digit_val c = (of_char c :: nat) - 48"

definition digit_char :: "nat \<Rightarrow> char" where
  "digit_char d = char_of (48 + d)"

definition strip :: "string \<Rightarrow> string" where
  "strip s = rev (dropWhile is_space (rev (dropWhile is_space s)))"

fun underscores_ok :: "string \<Rightarrow> bool" where
  "underscores_ok [] = False"
| "underscores_ok [c] = is_digit c"
| "underscores_ok (c # d # cs) =
     (if is_digit c then
        (if d = CHR ''_'' then (case cs of [] \<Rightarrow> False | e # _ \<Rightarrow> is_digit e \<and> underscores_ok cs)
         else underscores_ok (d # cs))
      else False)"

definition digits_value :: "string \<Rightarrow> nat" where
  "digits_value ds = foldl (\<lambda>acc c. acc * 10 + digit_val c) 0 ds"

definition py_int :: "string \<Rightarrow> exn + int" where
  "py_int s =
     (let t = strip s;
          neg = (t \<noteq> [] \<and> hd t = CHR ''-'');
          body = (if t \<noteq> [] \<and> (hd t = CHR ''-'' \<or> hd t = CHR ''+'') then tl t else t)
      in if underscores_ok body
         then (let digits = filter (\<lambda>c. c \<noteq> CHR ''_'') body
               in if length digits > INT_MAX_STR_DIGITS then Inl digit_limit_error
                  else (let v = int (digits_value digits)
                        in Inr (if neg then - v else v)))
         else Inl (ValueError s))"

text \<open>\<open>text.split(':')\<close>: the fields between the colons; never the empty list.\<close>

fun split_colon :: "string \<Rightarrow> string list" where
  "split_colon [] = [[]]"
| "split_colon (c # cs) =
     (if c = CHR '':'' then [] # split_colon cs
      else (case split_colon cs of [] \<Rightarrow> [[c]] | p # ps \<Rightarrow> (c # p) # ps))"

definition no_colon :: "string \<Rightarrow> bool" where
  "no_colon a = list_all (\<lambda>c. c \<noteq> CHR '':'') a"

text \<open>
  \<open>map(int, parts)\<close> unpacked into names: the fields are converted from left to right
  and the first malformed one raises.
\<close>

fun map_int :: "string list \<Rightarrow> exn + int list" where
  "map_int [] = Inr []"
| "map_int (p # ps) =
     (case py_int p of
        Inl e \<Rightarrow> Inl e
      | Inr v \<Rightarrow> (case map_int ps of Inl e \<Rightarrow> Inl e | Inr vs \<Rightarrow> Inr (v # vs)))"

definition time_to_seconds :: "string \<Rightarrow> exn + int" where
  "time_to_seconds time_str =
     (let parts = split_colon time_str
      in if length parts = 3 then
           (case map_int parts of
              Inl e \<Rightarrow> Inl e
            | Inr vs \<Rightarrow> Inr ((vs ! 0) * 3600 + (vs ! 1) * 60 + (vs ! 2)))
         else if length parts = 2 then
           (case map_int parts of
              Inl e \<Rightarrow> Inl e
            | Inr vs \<Rightarrow> Inr ((vs ! 0) * 60 + (vs ! 1)))
         else py_int (hd parts))"

text \<open>
  Decimal digits of a natural number, and the format \<open>{:02d}\<close> of an integer, which
  raises when the integer has more digits than the conversion limit.
\<close>

fun dec :: "nat \<Rightarrow> string" where
  "dec n = (if n < 10 then [digit_char n] else dec (n div 10) @ [digit_char (n mod 10)])"

declare dec.simps [simp del]

definition fmt02d :: "int \<Rightarrow> exn + string" where
  "fmt02d v =
     (let ds = dec (nat \<bar>v\<bar>)
      in if length ds > INT_MAX_STR_DIGITS then Inl digit_limit_error
         else if v < 0 then Inr (CHR ''-'' # ds)
         else Inr (replicate (2 - length ds) CHR ''0'' @ ds))"

definition seconds_to_time :: "int \<Rightarrow> exn + string" where
  "seconds_to_time seconds =
     (let h = seconds div 3600;
          m = (seconds mod 3600) div 60;
          s = seconds mod 60
      in case fmt02d h of
           Inl e \<Rightarrow> Inl e
         | Inr hh \<Rightarrow>
             (case fmt02d m of
                Inl e \<Rightarrow> Inl e
              | Inr mm \<Rightarrow>
                  (case fmt02d s of
                     Inl e \<Rightarrow> Inl e
                   | Inr ss \<Rightarrow> Inr (hh @ '':'' @ mm @ '':'' @ ss))))"


section \<open>Upload client (youtube_uploader.py)\<close>

text \<open>
  The file system is a map from paths to contents; a \<open>Path\<close> is its text. The upload
  client and the external tools leave a trace of the calls they make.
\<close>

type_synonym path = string
type_synonym content = string
type_synonym fs = "path \<rightharpoonup> content"

definition path_exists :: "fs \<Rightarrow> path \<Rightarrow> bool" where
  "path_exists files p = (files p \<noteq> None)"

datatype event =
    EvDownload string string path
  | EvCapture path string path
  | EvGenerate path path
  | EvUploadCall path "(path \<times> content) option"
  | EvMediaFileUpload path
  | EvInsert string string "string list"
  | EvTransfer
  | EvSetThumbnail string path
  | EvSleep nat

text \<open>
  One answer of \<open>insert_request.next_chunk()\<close>: the transfer goes on (the response is
  \<open>None\<close>), it is over (a response, with its \<open>id\<close> entry if it has one), or the call
  raises. The answers of one transfer are a list; when the list is used up the call never
  answers, and the loop does not return.
\<close>

datatype chunk_result =
    InProgress
  | Completed "string option"
  | ChunkRaises exn

text \<open>
  What the world does during one \<open>upload\<close>: whether building the service, building the
  media body or building the insert request raises, the answers of \<open>next_chunk\<close>, and
  whether attaching the thumbnail raises.
\<close>

record upload_env =
  ue_build_service :: "exn option"
  ue_media :: "exn option"
  ue_insert :: "exn option"
  ue_chunks :: "chunk_result list"
  ue_thumbnail :: "exn option"

definition MAX_RETRIES :: nat where
  "MAX_RETRIES = 5"

definition RETRIABLE_STATUS_CODES :: "nat list" where
  "RETRIABLE_STATUS_CODES = [500, 502, 503, 504]"

text \<open>
  The two handlers of the retry loop: the text stored in \<open>error\<close> when the exception is
  retriable, the exception itself when it propagates.
\<close>

fun chunk_error :: "exn \<Rightarrow> exn + string" where
  "chunk_error (HttpError st body) =
     (if st \<in> set RETRIABLE_STATUS_CODES then Inr (''HTTP '' @ dec st @ '': '' @ body)
      else Inl (HttpError st body))"
| "chunk_error (HttpLib2Error msg) = Inr msg"
| "chunk_error (OSError msg) = Inr msg"
| "chunk_error e = Inl e"

text \<open>
  \<open>_resumable_upload\<close>. \<open>retry\<close> is the counter of the loop; it is never reset. The
  test \<open>if error:\<close> is the truth value of a string. The random back-off sleep has no
  effect on the result and is left out. \<open>None\<close>: the call does not return.
\<close>

fun resumable_upload :: "chunk_result list \<Rightarrow> nat \<Rightarrow> (exn + string option) option" where
  "resumable_upload [] retry = None"
| "resumable_upload (InProgress # cs) retry = resumable_upload cs retry"
| "resumable_upload (Completed ident # cs) retry = Some (Inr ident)"
| "resumable_upload (ChunkRaises e # cs) retry =
     (case chunk_error e of
        Inl e' \<Rightarrow> Some (Inl e')
      | Inr error \<Rightarrow>
          (if error \<noteq> [] then
             (if Suc retry > MAX_RETRIES then Some (Inr None)
              else resumable_upload cs (Suc retry))
           else resumable_upload cs retry))"

text \<open>The truth value of an optional string (\<open>if video_id:\<close>).\<close>

fun truthy :: "string option \<Rightarrow> bool" where
  "truthy None = False"
| "truthy (Some v) = (v \<noteq> [])"

text \<open>\<open>_set_thumbnail\<close>: every exception is caught and logged; the result is a flag.\<close>

definition set_thumbnail :: "upload_env \<Rightarrow> bool" where
  "set_thumbnail env =
     (case ue_thumbnail env of
        None \<Rightarrow> True
      | Some (HttpError st body) \<Rightarrow> (if st = 403 then False else False)
      | Some e \<Rightarrow> False)"

text \<open>
  \<open>upload\<close>. The result is \<open>None\<close> when the call does not return, \<open>Some (Inl e)\<close> when
  it raises, \<open>Some (Inr r)\<close> when it returns \<open>r\<close>. The media body is built before the
  \<open>try\<close>, so its exception leaves \<open>upload\<close>; the exceptions of the \<open>try\<close> block return
  \<open>None\<close>. The category and the privacy status do not reach the result and are left out.
\<close>

definition upload ::
  "upload_env \<Rightarrow> fs \<Rightarrow> path \<Rightarrow> string \<Rightarrow> string \<Rightarrow> string list \<Rightarrow> path option
     \<Rightarrow> (exn + string option) option \<times> event list" where
  "upload env files video_path title description tags thumbnail_path =
     (if \<not> path_exists files video_path then (Some (Inr None), [])
      else
        (let title' = (if length title > 100 then take 100 title else title);
             description' = (if length description > 5000 then take 5000 description
                             else description);
             built = [EvMediaFileUpload video_path]
         in case ue_media env of
              Some e \<Rightarrow> (Some (Inl e), built)
            | None \<Rightarrow>
                (let asked = built @ [EvInsert title' description' (take 500 tags)]
                 in case ue_insert env of
                      Some e \<Rightarrow> (Some (Inr None), asked)
                    | None \<Rightarrow>
                        (case resumable_upload (ue_chunks env) 0 of
                           None \<Rightarrow> (None, asked @ [EvTransfer])
                         | Some (Inl e) \<Rightarrow> (Some (Inr None), asked @ [EvTransfer])
                         | Some (Inr video_id) \<Rightarrow>
                             (if truthy video_id then
                                (case thumbnail_path of
                                   None \<Rightarrow> (Some (Inr video_id), asked @ [EvTransfer])
                                 | Some tp \<Rightarrow>
                                     (if path_exists files tp then
                                        (let attached = set_thumbnail env
                                         in (Some (Inr video_id),
                                             asked @ [EvTransfer, EvSetThumbnail (the video_id) tp]))
                                      else (Some (Inr video_id), asked @ [EvTransfer])))
                              else (Some (Inr None), asked @ [EvTransfer]))))))"


section \<open>Clip orchestrator (clip_creator.py)\<close>

text \<open>
  A clip descriptor is a JSON object; \<open>clip_data.get(key, default)\<close> reads an optional
  field. The fields that are present hold text (a list of texts for the tags).
\<close>

record clip =
  cd_clip_id :: "string option"
  cd_title :: "string option"
  cd_start_time :: "string option"
  cd_end_time :: "string option"
  cd_thumbnail_timestamp :: "string option"
  cd_recommended_description :: "string option"
  cd_tags :: "string list option"

definition get_or :: "'a option \<Rightarrow> 'a \<Rightarrow> 'a" where
  "get_or field dflt = (case field of None \<Rightarrow> dflt | Some v \<Rightarrow> v)"

text \<open>
  The \<open>error\<close> entry of an outcome is a fixed message or \<open>str(e)\<close> of a caught
  exception.
\<close>

datatype errmsg = Msg string | StrOf exn

record outcome =
  r_clip_id :: string
  r_title :: "string option"
  r_status :: string
  r_video_id :: "string option"
  r_error :: "errmsg option"

text \<open>How a \<open>subprocess.run\<close> with a timeout ends.\<close>

datatype run_result = Exited int | TimeoutExpired | RunRaised exn

datatype enhance_result = EnhReturned bool | EnhRaised exn

text \<open>
  What the world does while one clip is processed: how the downloader and the transcoder
  end and which file each leaves at its output path (if any), how the thumbnail generator
  ends and which file it leaves, how the successive calls of \<open>shutil.copy\<close> end (an
  entry \<open>Some e\<close>: the call raises \<open>e\<close>; a call beyond the list does not raise),
  what happens during the upload, and the paths whose removal raises.
\<close>

record clip_env =
  ce_download :: run_result
  ce_download_file :: "content option"
  ce_capture :: run_result
  ce_capture_file :: "content option"
  ce_enhance :: enhance_result
  ce_enhance_file :: "content option"
  ce_copy :: "exn option list"
  ce_upload :: upload_env
  ce_unlink_fails :: "path list"

definition written :: "fs \<Rightarrow> path \<Rightarrow> content option \<Rightarrow> fs" where
  "written files p out = (case out of None \<Rightarrow> files | Some c \<Rightarrow> files(p \<mapsto> c))"

text \<open>
  \<open>TEMP_DIR / name\<close>: an absolute name replaces the directory. The text is not
  normalised (pathlib drops \<open>.\<close> components and doubled slashes); it names the same
  file.
\<close>

definition temp_path :: "string \<Rightarrow> path" where
  "temp_path name =
     (if name \<noteq> [] \<and> hd name = CHR ''/'' then name else ''temp_clips/'' @ name)"

text \<open>
  \<open>download_clip_segment\<close>: the two conversions stand before the \<open>try\<close> and raise;
  after them every way the downloader can end is a Boolean.
\<close>

definition download_clip_segment ::
  "clip_env \<Rightarrow> fs \<Rightarrow> string \<Rightarrow> string \<Rightarrow> path \<Rightarrow> exn + (bool \<times> fs)" where
  "download_clip_segment env files start_time end_time output_path =
     (case time_to_seconds start_time of
        Inl e \<Rightarrow> Inl e
      | Inr start_sec \<Rightarrow>
          (case time_to_seconds end_time of
             Inl e \<Rightarrow> Inl e
           | Inr end_sec \<Rightarrow>
               (let files' = written files output_path (ce_download_file env)
                in case ce_download env of
                     Exited returncode \<Rightarrow>
                       Inr (returncode = 0 \<and> path_exists files' output_path, files')
                   | TimeoutExpired \<Rightarrow> Inr (False, files')
                   | RunRaised e \<Rightarrow> Inr (False, files'))))"

definition capture_thumbnail_frame ::
  "clip_env \<Rightarrow> fs \<Rightarrow> path \<Rightarrow> string \<Rightarrow> path \<Rightarrow> bool \<times> fs" where
  "capture_thumbnail_frame env files video_path timestamp output_path =
     (let files' = written files output_path (ce_capture_file env)
      in case ce_capture env of
           Exited returncode \<Rightarrow> (returncode = 0 \<and> path_exists files' output_path, files')
         | TimeoutExpired \<Rightarrow> (False, files')
         | RunRaised e \<Rightarrow> (False, files'))"

text \<open>
  \<open>shutil.copy\<close>: the call raises what the world says (a full disk, a target that
  cannot be written), or because the source is missing; else it writes the target. A
  call that raises is taken to leave the files as they were.
  \<open>next_copy\<close> takes the outcome of the next call from the list of the world.
\<close>

definition next_copy :: "exn option list \<Rightarrow> exn option \<times> exn option list" where
  "next_copy copies = (case copies of [] \<Rightarrow> (None, []) | c # rest \<Rightarrow> (c, rest))"

definition copy_file :: "exn option \<Rightarrow> fs \<Rightarrow> path \<Rightarrow> path \<Rightarrow> exn + fs" where
  "copy_file raised files src dst =
     (case raised of
        Some e \<Rightarrow> Inl e
      | None \<Rightarrow>
          (case files src of
             None \<Rightarrow> Inl (OSError src)
           | Some c \<Rightarrow> Inr (files(dst \<mapsto> c))))"

text \<open>
  \<open>generate_thumbnail_chatgpt\<close>: the copy of the \<open>else\<close> branch is inside the \<open>try\<close>,
  the copy of the handler is not. The third component of the result is what is left of
  the copy outcomes.
\<close>

definition generate_thumbnail_chatgpt ::
  "clip_env \<Rightarrow> exn option list \<Rightarrow> fs \<Rightarrow> path \<Rightarrow> path
     \<Rightarrow> (exn + bool) \<times> fs \<times> exn option list" where
  "generate_thumbnail_chatgpt env copies files image_path output_path =
     (let files' = written files output_path (ce_enhance_file env);
          handler = (\<lambda>left.
                       case copy_file (fst (next_copy left)) files' image_path output_path of
                         Inl e \<Rightarrow> (Inl e, files', snd (next_copy left))
                       | Inr files'' \<Rightarrow> (Inr True, files'', snd (next_copy left)))
      in case ce_enhance env of
           EnhRaised e \<Rightarrow> handler copies
         | EnhReturned success \<Rightarrow>
             (if success \<and> path_exists files' output_path then (Inr True, files', copies)
              else (case copy_file (fst (next_copy copies)) files' image_path output_path of
                      Inl e \<Rightarrow> handler (snd (next_copy copies))
                    | Inr files'' \<Rightarrow> (Inr True, files'', snd (next_copy copies)))))"

text \<open>
  Step 3 of \<open>process_clip\<close>: when the frame file exists the generator is called, and
  the handler of the inner \<open>try\<close> copies the frame once more; that last copy is not
  guarded. \<open>Inl e\<close>: the step raises \<open>e\<close>.
\<close>

definition enhance_step :: "clip_env \<Rightarrow> fs \<Rightarrow> path \<Rightarrow> path \<Rightarrow> (exn + unit) \<times> fs" where
  "enhance_step env files frame_path thumbnail_path =
     (if path_exists files frame_path then
        (case generate_thumbnail_chatgpt env (ce_copy env) files frame_path thumbnail_path of
           (Inr made, files', left) \<Rightarrow> (Inr (), files')
         | (Inl e, files', left) \<Rightarrow>
             (case copy_file (fst (next_copy left)) files' frame_path thumbnail_path of
                Inl e' \<Rightarrow> (Inl e', files')
              | Inr files'' \<Rightarrow> (Inr (), files'')))
      else (Inr (), files))"

text \<open>
  \<open>upload_to_youtube\<close>: everything is caught; the result is the video id or \<open>None\<close>
  (the outer \<open>None\<close>: the call does not return).
\<close>

definition upload_to_youtube ::
  "upload_env \<Rightarrow> fs \<Rightarrow> path \<Rightarrow> path \<Rightarrow> clip \<Rightarrow> string option option \<times> event list" where
  "upload_to_youtube env files video_path thumbnail_path clip_data =
     (let call = EvUploadCall video_path
                   (case files thumbnail_path of None \<Rightarrow> None | Some c \<Rightarrow> Some (thumbnail_path, c))
      in case ue_build_service env of
           Some e \<Rightarrow> (Some None, [call])
         | None \<Rightarrow>
             (case upload env files video_path
                     (get_or (cd_title clip_data) ''Clip'')
                     (get_or (cd_recommended_description clip_data) [])
                     (get_or (cd_tags clip_data) [])
                     (if path_exists files thumbnail_path then Some thumbnail_path else None) of
                (None, evs) \<Rightarrow> (None, call # evs)
              | (Some (Inl e), evs) \<Rightarrow> (Some None, call # evs)
              | (Some (Inr video_id), evs) \<Rightarrow>
                  (if truthy video_id then (Some video_id, call # evs)
                   else (Some None, call # evs))))"

text \<open>
  \<open>cleanup_temp_files\<close>: each path is tried on its own; a removal that raises is logged
  and the loop goes on.
\<close>

fun cleanup_temp_files :: "path list \<Rightarrow> path list \<Rightarrow> fs \<Rightarrow> fs" where
  "cleanup_temp_files unlink_fails [] files = files"
| "cleanup_temp_files unlink_fails (p # ps) files =
     (if path_exists files p then
        (if p \<in> set unlink_fails then cleanup_temp_files unlink_fails ps files
         else cleanup_temp_files unlink_fails ps (files(p := None)))
      else cleanup_temp_files unlink_fails ps files)"

text \<open>The three timestamps that \<open>process_clip\<close> reads from the descriptor.\<close>

definition start_time_of :: "clip \<Rightarrow> string" where
  "start_time_of clip_data = get_or (cd_start_time clip_data) ''00:00:00''"

definition end_time_of :: "clip \<Rightarrow> string" where
  "end_time_of clip_data = get_or (cd_end_time clip_data) ''00:01:00''"

definition thumbnail_timestamp_of :: "clip \<Rightarrow> string" where
  "thumbnail_timestamp_of clip_data =
     get_or (cd_thumbnail_timestamp clip_data) (start_time_of clip_data)"

text \<open>
  The \<open>try\<close> block of \<open>process_clip\<close>: \<open>Inl e\<close> when it raises \<open>e\<close>, \<open>Inr result\<close>
  when it reaches a \<open>return\<close> or its end; with the files and the trace at that point.
  \<open>None\<close>: the upload does not return.
\<close>

definition process_clip_try ::
  "clip_env \<Rightarrow> clip \<Rightarrow> outcome \<Rightarrow> path \<Rightarrow> path \<Rightarrow> path \<Rightarrow> fs
     \<Rightarrow> ((exn + outcome) \<times> fs \<times> event list) option" where
  "process_clip_try env clip_data result video_path frame_path thumbnail_path files =
     (let start_time = start_time_of clip_data;
          end_time = end_time_of clip_data;
          ev1 = [EvDownload start_time end_time video_path]
      in case download_clip_segment env files start_time end_time video_path of
           Inl e \<Rightarrow> Some (Inl e, files, [])
         | Inr (ok, files1) \<Rightarrow>
             (if \<not> ok then
                Some (Inr (result\<lparr>r_status := ''failed'',
                                  r_error := Some (Msg ''Falha no download do segmento'')\<rparr>),
                      files1, ev1)
              else
                (let thumbnail_timestamp = thumbnail_timestamp_of clip_data
                 in case time_to_seconds (start_time_of clip_data) of
                      Inl e \<Rightarrow> Some (Inl e, files1, ev1)
                    | Inr start_sec \<Rightarrow>
                        (case time_to_seconds thumbnail_timestamp of
                           Inl e \<Rightarrow> Some (Inl e, files1, ev1)
                         | Inr thumb_sec \<Rightarrow>
                             (case seconds_to_time (max 0 (thumb_sec - start_sec)) of
                                Inl e \<Rightarrow> Some (Inl e, files1, ev1)
                              | Inr relative_thumb \<Rightarrow>
                                  (let files2 = snd (capture_thumbnail_frame env files1 video_path
                                                       relative_thumb frame_path);
                                       ev2 = ev1 @ [EvCapture video_path relative_thumb frame_path];
                                       ev3 = (if path_exists files2 frame_path
                                              then ev2 @ [EvGenerate frame_path thumbnail_path]
                                              else ev2)
                                   in case enhance_step env files2 frame_path thumbnail_path of
                                        (Inl e, files3) \<Rightarrow> Some (Inl e, files3, ev3)
                                      | (Inr u, files3) \<Rightarrow>
                                          (case upload_to_youtube (ce_upload env) files3 video_path
                                                  (if path_exists files3 thumbnail_path
                                                   then thumbnail_path else frame_path)
                                                  clip_data of
                                             (None, evs) \<Rightarrow> None
                                           | (Some video_id, evs) \<Rightarrow>
                                               (if truthy video_id then
                                                  Some (Inr (result\<lparr>r_status := ''success'',
                                                                    r_video_id := video_id\<rparr>),
                                                        files3, ev3 @ evs)
                                                else
                                                  Some (Inr (result\<lparr>r_status := ''failed'',
                                                                    r_error :=
                                                                      Some (Msg ''Falha no upload'')\<rparr>),
                                                        files3, ev3 @ evs)))))))))"

text \<open>
  \<open>process_clip\<close>: the outcome is created, the \<open>try\<close> block runs, \<open>except Exception\<close>
  turns an exception into the status \<open>error\<close>, and \<open>finally\<close> removes the three
  temporary files. The URL of the recording, the credentials and the number of clips
  only reach the external tools and the log; they are part of the world.
\<close>

definition video_path_of :: "string \<Rightarrow> path" where
  "video_path_of clip_id = temp_path (clip_id @ ''.mp4'')"

definition frame_path_of :: "string \<Rightarrow> path" where
  "frame_path_of clip_id = temp_path (clip_id @ ''_frame.png'')"

definition thumbnail_path_of :: "string \<Rightarrow> path" where
  "thumbnail_path_of clip_id = temp_path (clip_id @ ''_thumbnail.png'')"

definition clip_id_of :: "clip \<Rightarrow> nat \<Rightarrow> string" where
  "clip_id_of clip_data clip_index = get_or (cd_clip_id clip_data) (''clip_'' @ dec clip_index)"

definition initial_result :: "clip \<Rightarrow> nat \<Rightarrow> outcome" where
  "initial_result clip_data clip_index =
     \<lparr>r_clip_id = clip_id_of clip_data clip_index, r_title = cd_title clip_data,
      r_status = ''pending'', r_video_id = None, r_error = None\<rparr>"

definition process_clip ::
  "clip_env \<Rightarrow> clip \<Rightarrow> nat \<Rightarrow> fs \<Rightarrow> (outcome \<times> fs \<times> event list) option" where
  "process_clip env clip_data clip_index files =
     (let clip_id = clip_id_of clip_data clip_index;
          result = initial_result clip_data clip_index;
          video_path = video_path_of clip_id;
          frame_path = frame_path_of clip_id;
          thumbnail_path = thumbnail_path_of clip_id;
          temps = [video_path, frame_path, thumbnail_path]
      in case process_clip_try env clip_data result video_path frame_path thumbnail_path files of
           None \<Rightarrow> None
         | Some (Inl e, files1, evs) \<Rightarrow>
             Some (result\<lparr>r_status := ''error'', r_error := Some (StrOf e)\<rparr>,
                   cleanup_temp_files (ce_unlink_fails env) temps files1, evs)
         | Some (Inr result', files1, evs) \<Rightarrow>
             Some (result', cleanup_temp_files (ce_unlink_fails env) temps files1, evs))"

section \<open>Batch runner (clip_creator.py: main, save_processing_log)\<close>

text \<open>
  The loop of \<open>main\<close> over the clips, \<open>i\<close> being the index of the first clip of the list
  and \<open>total_clips\<close> the number of clips; the world of clip \<open>i\<close> is \<open>envs i\<close>.
\<close>

fun run_batch ::
  "(nat \<Rightarrow> clip_env) \<Rightarrow> clip list \<Rightarrow> nat \<Rightarrow> nat \<Rightarrow> fs
     \<Rightarrow> (outcome list \<times> fs \<times> event list) option" where
  "run_batch envs [] i total_clips files = Some ([], files, [])"
| "run_batch envs (clip_data # rest) i total_clips files =
     (case process_clip (envs i) clip_data i files of
        None \<Rightarrow> None
      | Some (result, files1, evs) \<Rightarrow>
          (let pause = (if r_status result = ''success'' \<and> i < total_clips - 1 then [EvSleep 5] else [])
           in case run_batch envs rest (Suc i) total_clips files1 of
                None \<Rightarrow> None
              | Some (results, files2, evs2) \<Rightarrow>
                  Some (result # results, files2, evs @ pause @ evs2)))"

text \<open>\<open>save_processing_log\<close>; the time stamp is left out.\<close>

record summary =
  sm_total_clips :: nat
  sm_successful :: nat
  sm_failed :: nat
  sm_clips :: "outcome list"

definition save_processing_log :: "outcome list \<Rightarrow> summary" where
  "save_processing_log results =
     \<lparr>sm_total_clips = length results,
      sm_successful = length (filter (\<lambda>r. r_status r = ''success'') results),
      sm_failed = length (filter (\<lambda>r. r_status r \<in> set [''failed'', ''error'']) results),
      sm_clips = results\<rparr>"



section \<open>Auxiliary notions and example worlds\<close>

text \<open>
  A retriable failure of \<open>next_chunk\<close>: an exception that the retry loop catches and
  counts, that is one whose stored text is not empty. An answer after which the loop
  goes on: the transfer is in progress, or the exception is caught by the loop.
\<close>

definition keeps_looping :: "chunk_result \<Rightarrow> bool" where
  "keeps_looping c =
     (case c of
        InProgress \<Rightarrow> True
      | Completed ident \<Rightarrow> False
      | ChunkRaises e \<Rightarrow> (case chunk_error e of Inl e' \<Rightarrow> False | Inr error \<Rightarrow> True))"

definition retriable_failure :: "chunk_result \<Rightarrow> bool" where
  "retriable_failure c =
     (case c of
        ChunkRaises e \<Rightarrow> (case chunk_error e of Inl e' \<Rightarrow> False | Inr error \<Rightarrow> error \<noteq> [])
      | _ \<Rightarrow> False)"

text \<open>The events of the upload step.\<close>

fun is_upload_event :: "event \<Rightarrow> bool" where
  "is_upload_event (EvUploadCall v t) = True"
| "is_upload_event (EvMediaFileUpload v) = True"
| "is_upload_event (EvInsert t d g) = True"
| "is_upload_event EvTransfer = True"
| "is_upload_event (EvSetThumbnail v t) = True"
| "is_upload_event e = False"

text \<open>
  Whether one of the next \<open>k\<close> calls of \<open>shutil.copy\<close> does not raise; and the number
  of copies that are tried when the generator fails: two when it raised (the handler of
  \<open>generate_thumbnail_chatgpt\<close>, the handler of \<open>process_clip\<close>), three when it
  returned (the \<open>else\<close> branch before them).
\<close>

fun copy_succeeds_within :: "nat \<Rightarrow> exn option list \<Rightarrow> bool" where
  "copy_succeeds_within 0 copies = False"
| "copy_succeeds_within (Suc k) [] = True"
| "copy_succeeds_within (Suc k) (None # copies) = True"
| "copy_succeeds_within (Suc k) (Some e # copies) = copy_succeeds_within k copies"

definition fallback_copy_succeeds :: "clip_env \<Rightarrow> bool" where
  "fallback_copy_succeeds env =
     copy_succeeds_within (case ce_enhance env of EnhRaised e \<Rightarrow> 2 | EnhReturned ok \<Rightarrow> 3)
       (ce_copy env)"

definition no_files :: fs where
  "no_files = Map.empty"

definition example_files :: fs where
  "example_files = [''v.mp4'' \<mapsto> ''video'', ''t.png'' \<mapsto> ''frame'']"

definition example_upload :: upload_env where
  "example_upload =
     \<lparr>ue_build_service = None, ue_media = None, ue_insert = None,
      ue_chunks = [InProgress, Completed (Some ''abc'')], ue_thumbnail = None\<rparr>"

definition example_env :: clip_env where
  "example_env =
     \<lparr>ce_download = Exited 0, ce_download_file = Some ''video'',
      ce_capture = Exited 0, ce_capture_file = Some ''frame'',
      ce_enhance = EnhReturned True, ce_enhance_file = Some ''thumbnail'', ce_copy = [],
      ce_upload = example_upload, ce_unlink_fails = []\<rparr>"

definition example_clip :: clip where
  "example_clip =
     \<lparr>cd_clip_id = Some ''c1'', cd_title = Some ''T'', cd_start_time = Some ''00:10:00'',
      cd_end_time = Some ''00:11:00'', cd_thumbnail_timestamp = Some ''00:10:30'',
      cd_recommended_description = None, cd_tags = None\<rparr>"

text \<open>A world in which the generator raises and no copy of the frame can be written.\<close>

definition example_disk_full :: clip_env where
  "example_disk_full =
     example_env\<lparr>ce_enhance := EnhRaised (OtherException ''boom''),
                  ce_copy := [Some (OSError ''disk full''), Some (OSError ''disk full'')]\<rparr>"


definition five_failures :: "chunk_result list" where
  "five_failures = replicate 5 (ChunkRaises (HttpError 503 ''unavailable''))"

definition six_failures :: "chunk_result list" where
  "six_failures = replicate 6 (ChunkRaises (HttpError 503 ''unavailable''))"

text \<open>A batch of two clips in which the download of the second one fails.\<close>

definition example_world :: "nat \<Rightarrow> clip_env" where
  "example_world j = (if j = 1 then example_env\<lparr>ce_download := Exited 1\<rparr> else example_env)"

definition example_batch :: "clip list" where
  "example_batch = [example_clip, example_clip\<lparr>cd_clip_id := None\<rparr>]"



section \<open>The time codec: facts\<close>

lemma of_char_digit_char: "d < 10 \<Longrightarrow> (of_char (digit_char d) :: nat) = 48 + d"
  by (simp add: digit_char_def)

lemma is_digit_digit_char: "d < 10 \<Longrightarrow> is_digit (digit_char d)"
  by (simp add: is_digit_def of_char_digit_char)

lemma digit_val_digit_char: "d < 10 \<Longrightarrow> digit_val (digit_char d) = d"
  by (simp add: digit_val_def of_char_digit_char)

lemma is_digit_not_space: "is_digit c \<Longrightarrow> \<not> is_space c"
  by (auto simp: is_digit_def is_space_def)

lemma is_digit_not_special:
  "is_digit c \<Longrightarrow> c \<noteq> CHR '':'' \<and> c \<noteq> CHR ''_'' \<and> c \<noteq> CHR ''-'' \<and> c \<noteq> CHR ''+''"
  by (auto simp: is_digit_def)

lemma dec_nonempty: "dec n \<noteq> []"
  by (subst dec.simps) simp

lemma dec_digits: "list_all is_digit (dec n)"
proof (induction n rule: dec.induct)
  case (1 n)
  show ?case
  proof (cases "n < 10")
    case True
    then show ?thesis by (subst dec.simps) (simp add: is_digit_digit_char)
  next
    case False
    with 1 show ?thesis by (subst dec.simps) (simp add: is_digit_digit_char)
  qed
qed

lemma digits_value_snoc: "digits_value (ds @ [c]) = digits_value ds * 10 + digit_val c"
  by (simp add: digits_value_def)

lemma digits_value_dec: "digits_value (dec n) = n"
proof (induction n rule: dec.induct)
  case (1 n)
  show ?case
  proof (cases "n < 10")
    case True
    then show ?thesis by (subst dec.simps) (simp add: digits_value_def digit_val_digit_char)
  next
    case False
    with 1 show ?thesis
      by (subst dec.simps) (simp add: digits_value_snoc digit_val_digit_char)
  qed
qed

lemma digits_value_zero_pad: "digits_value (replicate k CHR ''0'' @ ds) = digits_value ds"
proof -
  have "foldl (\<lambda>acc c. acc * 10 + digit_val c) 0 (replicate k CHR ''0'') = 0"
    by (induction k) (simp_all add: digit_val_def)
  then show ?thesis by (simp add: digits_value_def)
qed

lemma underscores_ok_digits: "list_all is_digit ds \<Longrightarrow> ds \<noteq> [] \<Longrightarrow> underscores_ok ds"
  by (induction ds rule: underscores_ok.induct) (auto dest: is_digit_not_special)

lemma filter_digits: "list_all is_digit ds \<Longrightarrow> filter (\<lambda>c. c \<noteq> CHR ''_'') ds = ds"
  by (induction ds) (auto dest: is_digit_not_special)

lemma strip_clean_ends:
  assumes "s \<noteq> []" "\<not> is_space (hd s)" "\<not> is_space (last s)"
  shows "strip s = s"
proof -
  from assms have a: "dropWhile is_space s = s" by (cases s) simp_all
  from assms(1) obtain xs x where sx: "s = xs @ [x]" by (cases s rule: rev_cases) auto
  with assms(3) have b: "dropWhile is_space (rev s) = rev s" by simp
  show ?thesis by (simp add: strip_def a b)
qed

lemma py_int_digits:
  assumes "list_all is_digit ds" "ds \<noteq> []" "length ds \<le> INT_MAX_STR_DIGITS"
  shows "py_int ds = Inr (int (digits_value ds))"
proof -
  from assms have h: "is_digit (hd ds)" and l: "is_digit (last ds)"
    by (cases ds, simp_all) (simp add: list_all_iff)
  have s: "strip ds = ds"
    using assms h l by (intro strip_clean_ends) (simp_all add: is_digit_not_space)
  from h have "hd ds \<noteq> CHR ''-''" "hd ds \<noteq> CHR ''+''" by (auto dest: is_digit_not_special)
  then show ?thesis
    using assms by (simp add: py_int_def s underscores_ok_digits filter_digits)
qed

lemma py_int_minus_digits:
  assumes "list_all is_digit ds" "ds \<noteq> []" "length ds \<le> INT_MAX_STR_DIGITS"
  shows "py_int (CHR ''-'' # ds) = Inr (- int (digits_value ds))"
proof -
  from assms have l: "is_digit (last ds)" by (simp add: list_all_iff)
  have "\<not> is_space CHR ''-''" by (simp add: is_space_def)
  then have s: "strip (CHR ''-'' # ds) = CHR ''-'' # ds"
    using assms l by (intro strip_clean_ends) (simp_all add: is_digit_not_space)
  show ?thesis
    using assms by (simp add: py_int_def s underscores_ok_digits filter_digits)
qed

lemma dec_no_colon: "no_colon (dec n)"
  using dec_digits [of n] by (auto simp: no_colon_def list_all_iff dest: is_digit_not_special)

lemma zeros_no_colon: "no_colon (replicate k CHR ''0'')"
  by (induction k) (simp_all add: no_colon_def)

lemma zeros_digits: "list_all is_digit (replicate k CHR ''0'')"
  by (induction k) (simp_all add: is_digit_def)

lemma no_colon_append: "no_colon (a @ b) = (no_colon a \<and> no_colon b)"
  by (simp add: no_colon_def)

lemma fmt02d_no_colon: "fmt02d v = Inr t \<Longrightarrow> no_colon t"
proof -
  assume a: "fmt02d v = Inr t"
  have m: "no_colon (CHR ''-'' # dec k)" for k
    using dec_no_colon [of k] by (simp add: no_colon_def)
  from a show ?thesis
    by (auto simp: fmt02d_def Let_def m no_colon_append dec_no_colon zeros_no_colon
        split: if_splits)
qed

lemma py_int_fmt02d: "fmt02d v = Inr t \<Longrightarrow> py_int t = Inr v"
proof -
  assume a: "fmt02d v = Inr t"
  let ?d = "dec (nat \<bar>v\<bar>)"
  from a have len: "length ?d \<le> INT_MAX_STR_DIGITS"
    by (auto simp: fmt02d_def Let_def split: if_splits)
  show ?thesis
  proof (cases "v < 0")
    case True
    with a len have "t = CHR ''-'' # ?d" by (simp add: fmt02d_def Let_def)
    with True len show ?thesis
      by (simp add: py_int_minus_digits dec_digits dec_nonempty digits_value_dec)
  next
    case False
    let ?ds = "replicate (2 - length ?d) CHR ''0'' @ ?d"
    from False a len have t: "t = ?ds" by (simp add: fmt02d_def Let_def)
    have "list_all is_digit ?ds" by (simp add: dec_digits zeros_digits)
    moreover have "?ds \<noteq> []" by (simp add: dec_nonempty)
    moreover have "length ?ds \<le> INT_MAX_STR_DIGITS"
      using len by (simp add: INT_MAX_STR_DIGITS_def)
    ultimately have "py_int ?ds = Inr (int (digits_value ?ds))" by (rule py_int_digits)
    with False t show ?thesis by (simp add: digits_value_zero_pad digits_value_dec)
  qed
qed

lemma dec_length_le: "0 < k \<Longrightarrow> n < 10 ^ k \<Longrightarrow> length (dec n) \<le> k"
proof (induction k arbitrary: n)
  case 0
  then show ?case by simp
next
  case (Suc k)
  show ?case
  proof (cases "n < 10")
    case True
    then show ?thesis by (subst dec.simps) simp
  next
    case False
    with Suc.prems have k: "0 < k" by (cases k) simp_all
    from Suc.prems have "n div 10 < 10 ^ k" by (simp add: less_mult_imp_div_less mult.commute)
    with k have "length (dec (n div 10)) \<le> k" by (rule Suc.IH)
    with False show ?thesis by (subst dec.simps) simp
  qed
qed

lemma dec_length_gt: "10 ^ k \<le> n \<Longrightarrow> k < length (dec n)"
proof (induction k arbitrary: n)
  case 0
  have "dec n \<noteq> []" by (rule dec_nonempty)
  then show ?case by (cases "dec n") simp_all
next
  case (Suc k)
  from Suc.prems have "10 * 10 ^ k \<le> n" by simp
  moreover have "1 \<le> (10::nat) ^ k" by simp
  ultimately have n: "\<not> n < 10" by linarith
  from Suc.prems have "10 ^ k \<le> n div 10" by (simp add: less_eq_div_iff_mult_less_eq mult.commute)
  then have "k < length (dec (n div 10))" by (rule Suc.IH)
  with n show ?case by (subst dec.simps) simp
qed

lemma fmt02d_small: "0 \<le> v \<Longrightarrow> v < 10 ^ INT_MAX_STR_DIGITS \<Longrightarrow> \<exists>t. fmt02d v = Inr t"
proof -
  assume v: "0 \<le> v" "v < 10 ^ INT_MAX_STR_DIGITS"
  have "0 < INT_MAX_STR_DIGITS" by (simp add: INT_MAX_STR_DIGITS_def)
  moreover from v have "nat \<bar>v\<bar> < 10 ^ INT_MAX_STR_DIGITS"
    by (simp add: nat_less_iff)
  ultimately have "length (dec (nat \<bar>v\<bar>)) \<le> INT_MAX_STR_DIGITS" by (rule dec_length_le)
  with v show ?thesis by (simp add: fmt02d_def Let_def)
qed

lemma fmt02d_huge: "10 ^ INT_MAX_STR_DIGITS \<le> v \<Longrightarrow> fmt02d v = Inl digit_limit_error"
proof -
  assume v: "10 ^ INT_MAX_STR_DIGITS \<le> v"
  have "(0::int) \<le> 10 ^ INT_MAX_STR_DIGITS" by simp
  with v have "0 \<le> v" by linarith
  with v have "10 ^ INT_MAX_STR_DIGITS \<le> nat \<bar>v\<bar>" by (simp add: le_nat_iff)
  then have "INT_MAX_STR_DIGITS < length (dec (nat \<bar>v\<bar>))" by (rule dec_length_gt)
  then show ?thesis by (simp add: fmt02d_def Let_def)
qed

lemma ten_le_limit: "(10::int) \<le> 10 ^ INT_MAX_STR_DIGITS"
  by (rule self_le_power) (simp_all add: INT_MAX_STR_DIGITS_def)

lemma below_sixty_small: "0 \<le> v \<Longrightarrow> v < 60 \<Longrightarrow> \<exists>t. fmt02d v = Inr t"
proof -
  assume v: "0 \<le> v" "v < 60"
  have "v < 10 ^ 2" using v by simp
  then have "nat \<bar>v\<bar> < 10 ^ 2" using v by (simp add: nat_less_iff)
  then have "length (dec (nat \<bar>v\<bar>)) \<le> 2" by (intro dec_length_le) simp_all
  then show ?thesis by (simp add: fmt02d_def Let_def INT_MAX_STR_DIGITS_def)
qed

lemma split_colon_nonempty: "split_colon s \<noteq> []"
  by (induction s) (auto split: list.splits)

lemma split_colon_field: "no_colon a \<Longrightarrow> split_colon a = [a]"
  by (induction a) (auto simp: no_colon_def)

lemma split_colon_append: "no_colon a \<Longrightarrow> split_colon (a @ CHR '':'' # r) = a # split_colon r"
  by (induction a) (auto simp: no_colon_def)

lemma hms_recompose: "(n div 3600) * 3600 + ((n mod 3600) div 60) * 60 + n mod 60 = (n::int)"
proof -
  have a: "n mod 3600 mod 60 = n mod 60" by (simp add: mod_mod_cancel)
  have "((n mod 3600) div 60) * 60 + n mod 3600 mod 60 = n mod 3600" by simp
  with a have "((n mod 3600) div 60) * 60 + n mod 60 = n mod 3600" by simp
  moreover have "(n div 3600) * 3600 + n mod 3600 = n" by simp
  ultimately show ?thesis by linarith
qed

lemma seconds_to_time_parts:
  assumes "fmt02d (n div 3600) = Inr hh" "fmt02d (n mod 3600 div 60) = Inr mm"
    "fmt02d (n mod 60) = Inr ss"
  shows "seconds_to_time n = Inr (hh @ CHR '':'' # mm @ CHR '':'' # ss)"
    and "time_to_seconds (hh @ CHR '':'' # mm @ CHR '':'' # ss) = Inr n"
proof -
  show "seconds_to_time n = Inr (hh @ CHR '':'' # mm @ CHR '':'' # ss)"
    using assms by (simp add: seconds_to_time_def Let_def)
  have "split_colon (hh @ CHR '':'' # mm @ CHR '':'' # ss) = [hh, mm, ss]"
    using assms by (simp add: split_colon_append split_colon_field fmt02d_no_colon)
  then show "time_to_seconds (hh @ CHR '':'' # mm @ CHR '':'' # ss) = Inr n"
    using assms by (simp add: time_to_seconds_def Let_def py_int_fmt02d hms_recompose)
qed

lemma time_to_seconds_of_format:
  assumes "0 \<le> n" "n < 3600 * 10 ^ INT_MAX_STR_DIGITS"
  shows "\<exists>t. seconds_to_time n = Inr t \<and> time_to_seconds t = Inr n"
proof -
  from assms have "0 \<le> n div 3600" "n div 3600 < 10 ^ INT_MAX_STR_DIGITS"
    by (simp_all add: div_less_iff_less_mult mult.commute pos_imp_zdiv_nonneg_iff)
  then obtain hh where h: "fmt02d (n div 3600) = Inr hh" using fmt02d_small by blast
  have "0 \<le> n mod 3600 div 60" "n mod 3600 div 60 < 60"
    by (simp_all add: pos_imp_zdiv_nonneg_iff div_less_iff_less_mult)
  then obtain mm where m: "fmt02d (n mod 3600 div 60) = Inr mm" using below_sixty_small by blast
  have "0 \<le> n mod 60" "n mod 60 < 60" by simp_all
  then obtain ss where s: "fmt02d (n mod 60) = Inr ss" using below_sixty_small by blast
  from seconds_to_time_parts [OF h m s] show ?thesis by blast
qed

lemma seconds_to_time_beyond_limit:
  "seconds_to_time (3600 * 10 ^ INT_MAX_STR_DIGITS) = Inl digit_limit_error"
proof -
  have "(3600 * 10 ^ INT_MAX_STR_DIGITS) div 3600 = (10::int) ^ INT_MAX_STR_DIGITS" by simp
  moreover have "fmt02d (10 ^ INT_MAX_STR_DIGITS) = Inl digit_limit_error"
    by (rule fmt02d_huge) simp
  ultimately show ?thesis by (simp add: seconds_to_time_def Let_def)
qed

lemma py_int_error: "py_int s = Inl e \<Longrightarrow> \<exists>t. e = ValueError t"
  by (auto simp: py_int_def Let_def digit_limit_error_def split: if_splits)

lemma map_int_error: "map_int ps = Inl e \<Longrightarrow> \<exists>t. e = ValueError t"
  by (induction ps) (auto split: sum.splits dest: py_int_error)

lemma time_to_seconds_error: "time_to_seconds s = Inl e \<Longrightarrow> \<exists>t. e = ValueError t"
  by (auto simp: time_to_seconds_def Let_def split: if_splits sum.splits
      dest: py_int_error map_int_error)

text \<open>
  C6, as the code has it. For every number of seconds \<open>n\<close> with
  \<open>0 \<le> n < 3600 * 10 ^ 4300\<close>, \<open>seconds_to_time\<close> returns a clock string and parsing it
  returns \<open>n\<close> again. From \<open>3600 * 10 ^ 4300\<close> on the hour count has more than 4300
  digits and formatting it raises a \<open>ValueError\<close>.
\<close>

theorem parse_format_roundtrip:
  "0 \<le> n \<Longrightarrow> n < 3600 * 10 ^ INT_MAX_STR_DIGITS \<Longrightarrow>
   \<exists>t. seconds_to_time n = Inr t \<and> time_to_seconds t = Inr n"
  by (rule time_to_seconds_of_format)

theorem parse_format_roundtrip_witness:
  "(0::int) \<le> 3723 \<and> (3723::int) < 3600 * 10 ^ INT_MAX_STR_DIGITS \<and>
   (\<exists>t. seconds_to_time 3723 = Inr t \<and> time_to_seconds t = Inr 3723)"
proof -
  have a: "(0::int) \<le> 3723" by simp
  have "(3723::int) < 3600 * x" if "10 \<le> x" for x using that by linarith
  from this [OF ten_le_limit] have b: "(3723::int) < 3600 * 10 ^ INT_MAX_STR_DIGITS" .
  from parse_format_roundtrip [OF a b] a b show ?thesis by blast
qed

theorem format_raises_beyond_limit:
  "(0::int) \<le> 3600 * 10 ^ INT_MAX_STR_DIGITS \<and>
   seconds_to_time (3600 * 10 ^ INT_MAX_STR_DIGITS) = Inl digit_limit_error"
proof
  show "(0::int) \<le> 3600 * 10 ^ INT_MAX_STR_DIGITS" by simp
  show "seconds_to_time (3600 * 10 ^ INT_MAX_STR_DIGITS) = Inl digit_limit_error"
    by (rule seconds_to_time_beyond_limit)
qed

text \<open>
  C7, as the code has it. The parser accepts \<open>H:M:S\<close>, \<open>M:S\<close> and a bare integer. A
  text with four or more fields is not rejected for its shape: it is read as its first
  field alone, the other fields being ignored. The only rejection is a \<open>ValueError\<close>,
  raised when a field that is converted is not an integer literal.
\<close>

theorem time_to_seconds_shapes:
  "(no_colon a1 \<and> no_colon b1 \<and> no_colon c1 \<and>
      py_int a1 = Inr h \<and> py_int b1 = Inr m \<and> py_int c1 = Inr sec
      \<longrightarrow> time_to_seconds (a1 @ '':'' @ b1 @ '':'' @ c1) = Inr (h * 3600 + m * 60 + sec)) \<and>
   (no_colon a2 \<and> no_colon b2 \<and> py_int a2 = Inr m' \<and> py_int b2 = Inr sec'
      \<longrightarrow> time_to_seconds (a2 @ '':'' @ b2) = Inr (m' * 60 + sec')) \<and>
   (no_colon a3 \<longrightarrow> time_to_seconds a3 = py_int a3) \<and>
   (no_colon a4 \<and> 3 \<le> length (split_colon r)
      \<longrightarrow> time_to_seconds (a4 @ '':'' @ r) = py_int a4) \<and>
   (time_to_seconds s = Inl e \<longrightarrow> (\<exists>t. e = ValueError t))"
proof (intro conjI impI)
  assume "no_colon a1 \<and> no_colon b1 \<and> no_colon c1 \<and>
      py_int a1 = Inr h \<and> py_int b1 = Inr m \<and> py_int c1 = Inr sec"
  then show "time_to_seconds (a1 @ '':'' @ b1 @ '':'' @ c1) = Inr (h * 3600 + m * 60 + sec)"
    by (simp add: time_to_seconds_def Let_def split_colon_append split_colon_field)
next
  assume "no_colon a2 \<and> no_colon b2 \<and> py_int a2 = Inr m' \<and> py_int b2 = Inr sec'"
  then show "time_to_seconds (a2 @ '':'' @ b2) = Inr (m' * 60 + sec')"
    by (simp add: time_to_seconds_def Let_def split_colon_append split_colon_field)
next
  assume "no_colon a3"
  then show "time_to_seconds a3 = py_int a3"
    by (simp add: time_to_seconds_def Let_def split_colon_field)
next
  assume "no_colon a4 \<and> 3 \<le> length (split_colon r)"
  then show "time_to_seconds (a4 @ '':'' @ r) = py_int a4"
    by (simp add: time_to_seconds_def Let_def split_colon_append)
next
  assume "time_to_seconds s = Inl e"
  then show "\<exists>t. e = ValueError t" by (rule time_to_seconds_error)
qed

theorem four_fields_accepted: "time_to_seconds ''1:2:3:4'' = Inr 1"
  by (simp add: time_to_seconds_def py_int_def strip_def is_space_def is_digit_def
      digits_value_def digit_val_def INT_MAX_STR_DIGITS_def)


theorem time_to_seconds_shapes_witness:
  "time_to_seconds ''01:02:03'' = Inr 3723 \<and> time_to_seconds ''02:30'' = Inr 150 \<and>
   time_to_seconds ''45'' = Inr 45 \<and> time_to_seconds ''7:2:3:4'' = Inr 7 \<and>
   time_to_seconds ''4x'' = Inl (ValueError ''4x'')"
  using time_to_seconds_shapes [where ?a1.0 = "''01''" and ?b1.0 = "''02''" and ?c1.0 = "''03''"
      and h = 1 and m = 2 and sec = 3 and ?a2.0 = "''02''" and ?b2.0 = "''30''" and m' = 2
      and sec' = 30 and ?a3.0 = "''45''" and ?a4.0 = "''7''" and r = "''2:3:4''"
      and s = "''4x''" and e = "ValueError ''4x''"]
  by (simp add: time_to_seconds_def no_colon_def py_int_def strip_def is_space_def is_digit_def
      digits_value_def digit_val_def INT_MAX_STR_DIGITS_def)



section \<open>The upload client: facts\<close>

lemma keeps_looping_step:
  "keeps_looping c \<Longrightarrow>
   resumable_upload (c # cs) retry =
     (if retriable_failure c
      then (if Suc retry > MAX_RETRIES then Some (Inr None) else resumable_upload cs (Suc retry))
      else resumable_upload cs retry)"
  by (cases c) (auto simp: keeps_looping_def retriable_failure_def split: sum.splits)

lemma loop_gives_up:
  "list_all keeps_looping pre \<Longrightarrow> retry \<le> MAX_RETRIES \<Longrightarrow>
   MAX_RETRIES < retry + length (filter retriable_failure pre) \<Longrightarrow>
   resumable_upload (pre @ rest) retry = Some (Inr None)"
proof (induction pre arbitrary: retry)
  case Nil
  then show ?case by simp
next
  case (Cons c pre)
  from Cons.prems have k: "keeps_looping c" and ks: "list_all keeps_looping pre" by simp_all
  show ?case
  proof (cases "retriable_failure c")
    case True
    show ?thesis
    proof (cases "Suc retry > MAX_RETRIES")
      case True
      with \<open>retriable_failure c\<close> k show ?thesis by (simp add: keeps_looping_step)
    next
      case False
      with True Cons.prems have "Suc retry \<le> MAX_RETRIES"
        and "MAX_RETRIES < Suc retry + length (filter retriable_failure pre)" by simp_all
      with ks have "resumable_upload (pre @ rest) (Suc retry) = Some (Inr None)"
        by (intro Cons.IH)
      with True False k show ?thesis by (simp add: keeps_looping_step)
    qed
  next
    case False
    with Cons.prems have "MAX_RETRIES < retry + length (filter retriable_failure pre)" by simp
    with ks Cons.prems(2) have "resumable_upload (pre @ rest) retry = Some (Inr None)"
      by (intro Cons.IH)
    with False k show ?thesis by (simp add: keeps_looping_step)
  qed
qed

lemma loop_goes_on:
  "list_all keeps_looping pre \<Longrightarrow> retry + length (filter retriable_failure pre) \<le> MAX_RETRIES \<Longrightarrow>
   resumable_upload (pre @ rest) retry =
     resumable_upload rest (retry + length (filter retriable_failure pre))"
proof (induction pre arbitrary: retry)
  case Nil
  then show ?case by simp
next
  case (Cons c pre)
  from Cons.prems have k: "keeps_looping c" and ks: "list_all keeps_looping pre" by simp_all
  show ?case
  proof (cases "retriable_failure c")
    case True
    with Cons.prems have le: "Suc retry + length (filter retriable_failure pre) \<le> MAX_RETRIES"
      by simp
    with ks have "resumable_upload (pre @ rest) (Suc retry) =
        resumable_upload rest (Suc retry + length (filter retriable_failure pre))"
      by (intro Cons.IH)
    moreover from le have "\<not> Suc retry > MAX_RETRIES" by simp
    ultimately show ?thesis using True k by (simp add: keeps_looping_step)
  next
    case False
    with Cons.prems have "retry + length (filter retriable_failure pre) \<le> MAX_RETRIES" by simp
    with ks have "resumable_upload (pre @ rest) retry =
        resumable_upload rest (retry + length (filter retriable_failure pre))"
      by (intro Cons.IH)
    with False k show ?thesis by (simp add: keeps_looping_step)
  qed
qed

lemma upload_result_cases:
  "fst (upload env files video_path title description tags thumbnail_path) =
     (if \<not> path_exists files video_path then Some (Inr None)
      else case ue_media env of
             Some e \<Rightarrow> Some (Inl e)
           | None \<Rightarrow>
               (case ue_insert env of
                  Some e \<Rightarrow> Some (Inr None)
                | None \<Rightarrow>
                    (case resumable_upload (ue_chunks env) 0 of
                       None \<Rightarrow> None
                     | Some (Inl e) \<Rightarrow> Some (Inr None)
                     | Some (Inr video_id) \<Rightarrow>
                         Some (Inr (if truthy video_id then video_id else None)))))"
  by (simp add: upload_def Let_def split: option.splits sum.splits)

lemma upload_to_youtube_result:
  "fst (upload_to_youtube env files video_path thumbnail_path clip_data) =
     (case ue_build_service env of
        Some e \<Rightarrow> Some None
      | None \<Rightarrow>
          (case fst (upload env files video_path (get_or (cd_title clip_data) ''Clip'')
                       (get_or (cd_recommended_description clip_data) [])
                       (get_or (cd_tags clip_data) [])
                       (if path_exists files thumbnail_path then Some thumbnail_path else None)) of
             None \<Rightarrow> None
           | Some (Inl e) \<Rightarrow> Some None
           | Some (Inr video_id) \<Rightarrow> Some (if truthy video_id then video_id else None)))"
  by (simp add: upload_to_youtube_def Let_def split: option.splits sum.splits prod.splits)

lemma upload_to_youtube_gives_up:
  assumes "resumable_upload (ue_chunks env) 0 = Some (Inr None)"
  shows "fst (upload_to_youtube env files video_path thumbnail_path clip_data) = Some None"
  using assms by (simp add: upload_to_youtube_result upload_result_cases split: option.splits)

text \<open>
  C9. When the video file does not exist, \<open>upload\<close> returns \<open>None\<close> at once: it does
  not raise, and it builds and sends nothing.
\<close>

theorem upload_missing_video:
  "\<not> path_exists files video_path \<Longrightarrow>
   upload env files video_path title description tags thumbnail_path = (Some (Inr None), [])"
  by (simp add: upload_def)

theorem upload_missing_video_witness:
  "\<not> path_exists example_files ''w.mp4'' \<and>
   upload example_upload example_files ''w.mp4'' ''T'' ''D'' [] None = (Some (Inr None), [])"
  using upload_missing_video [of example_files "''w.mp4''" example_upload "''T''" "''D''" "[]" None]
  by (simp add: path_exists_def example_files_def)

text \<open>
  C8. When the transfer of the video succeeds, \<open>upload\<close> returns the video id whatever
  happens to the thumbnail: attaching it may succeed or raise anything, a 403 included.
\<close>

theorem thumbnail_failure_tolerated:
  assumes "path_exists files video_path"
    and "ue_media env = None" and "ue_insert env = None"
    and "resumable_upload (ue_chunks env) 0 = Some (Inr (Some video_id))"
    and "video_id \<noteq> []"
  shows "fst (upload (env\<lparr>ue_thumbnail := attach\<rparr>) files video_path title description tags
               thumbnail_path) = Some (Inr (Some video_id))"
  using assms by (simp add: upload_result_cases)

theorem thumbnail_failure_tolerated_witness:
  "path_exists example_files ''v.mp4'' \<and> path_exists example_files ''t.png'' \<and>
   resumable_upload (ue_chunks example_upload) 0 = Some (Inr (Some ''abc'')) \<and>
   set_thumbnail (example_upload\<lparr>ue_thumbnail := Some (HttpError 403 ''forbidden'')\<rparr>) = False \<and>
   fst (upload (example_upload\<lparr>ue_thumbnail := Some (HttpError 403 ''forbidden'')\<rparr>)
          example_files ''v.mp4'' ''T'' ''D'' [] (Some ''t.png'')) = Some (Inr (Some ''abc''))"
  using thumbnail_failure_tolerated [of example_files "''v.mp4''" example_upload "''abc''"
      "Some (HttpError 403 ''forbidden'')" "''T''" "''D''" "[]" "Some ''t.png''"]
  by (simp add: path_exists_def example_files_def example_upload_def set_thumbnail_def)

theorem five_failures_then_success:
  "fst (upload (example_upload\<lparr>ue_chunks := five_failures @ [Completed (Some ''abc'')]\<rparr>)
          example_files ''v.mp4'' ''T'' ''D'' [] None) = Some (Inr (Some ''abc''))"
  by (simp add: upload_result_cases path_exists_def example_files_def example_upload_def
      five_failures_def MAX_RETRIES_def RETRIABLE_STATUS_CODES_def numeral_eq_Suc)



section \<open>The orchestrator: facts\<close>

lemma temp_path_append:
  "s \<noteq> [] \<Longrightarrow> hd s \<noteq> CHR ''/'' \<Longrightarrow>
   temp_path (cid @ s) =
     (if cid \<noteq> [] \<and> hd cid = CHR ''/'' then cid @ s else ''temp_clips/'' @ cid @ s)"
  by (cases cid) (simp_all add: temp_path_def)

lemma temp_paths_distinct:
  "video_path_of cid \<noteq> frame_path_of cid"
  "video_path_of cid \<noteq> thumbnail_path_of cid"
  "frame_path_of cid \<noteq> thumbnail_path_of cid"
  by (simp_all add: video_path_of_def frame_path_of_def thumbnail_path_of_def temp_path_append)

lemma download_parses_start:
  "download_clip_segment env files start_time end_time vp = Inr res \<Longrightarrow>
   \<exists>start_sec. time_to_seconds start_time = Inr start_sec"
  by (auto simp: download_clip_segment_def split: sum.splits)

lemma download_files:
  "download_clip_segment env files start_time end_time vp = Inr (ok, files1) \<Longrightarrow>
   files1 = written files vp (ce_download_file env)"
  by (auto simp: download_clip_segment_def Let_def split: sum.splits run_result.splits)

lemma download_ok_exists:
  "download_clip_segment env files start_time end_time vp = Inr (True, files1) \<Longrightarrow>
   path_exists files1 vp"
  by (auto simp: download_clip_segment_def Let_def split: sum.splits run_result.splits)

lemma capture_files:
  "snd (capture_thumbnail_frame env files vp ts fp) = written files fp (ce_capture_file env)"
  by (simp add: capture_thumbnail_frame_def Let_def split: run_result.splits)

lemma written_other: "q \<noteq> p \<Longrightarrow> written files p out q = files q"
  by (simp add: written_def split: option.splits)

lemma written_keeps: "path_exists files q \<Longrightarrow> path_exists (written files p out) q"
  by (simp add: written_def path_exists_def split: option.splits)


lemma copy_file_ok: "files src = Some c \<Longrightarrow> copy_file None files src dst = Inr (files(dst \<mapsto> c))"
  by (simp add: copy_file_def)

lemma copy_file_raised: "copy_file (Some e) files src dst = Inl e"
  by (simp add: copy_file_def)

lemma enhance_step_raised_generator:
  assumes "ce_enhance env = EnhRaised x" and "files fp = Some frame" and "fp \<noteq> tp"
  shows "enhance_step env files fp tp =
     (if copy_succeeds_within 2 (ce_copy env)
      then (Inr (), (written files tp (ce_enhance_file env))(tp \<mapsto> frame))
      else (Inl (the (fst (next_copy (snd (next_copy (ce_copy env)))))),
            written files tp (ce_enhance_file env)))"
proof -
  have w: "written files tp (ce_enhance_file env) fp = Some frame"
    using assms by (simp add: written_other)
  have e: "path_exists files fp" using assms(2) by (simp add: path_exists_def)
  show ?thesis
  proof (cases "ce_copy env")
    case Nil
    with assms(1) e w show ?thesis
      by (simp add: enhance_step_def generate_thumbnail_chatgpt_def Let_def next_copy_def
          copy_file_ok numeral_2_eq_2)
  next
    case (Cons a rest)
    show ?thesis
    proof (cases a)
      case None
      with Cons assms(1) e w show ?thesis
        by (simp add: enhance_step_def generate_thumbnail_chatgpt_def Let_def next_copy_def
            copy_file_ok numeral_2_eq_2)
    next
      case (Some e1)
      show ?thesis
      proof (cases rest)
        case Nil
        with Some Cons assms(1) e w show ?thesis
          by (simp add: enhance_step_def generate_thumbnail_chatgpt_def Let_def next_copy_def
              copy_file_ok copy_file_raised numeral_2_eq_2)
      next
        case (Cons b rest')
        with Some \<open>ce_copy env = a # rest\<close> assms(1) e w show ?thesis
          by (cases b) (simp_all add: enhance_step_def generate_thumbnail_chatgpt_def Let_def
              next_copy_def copy_file_ok copy_file_raised numeral_2_eq_2)
      qed
    qed
  qed
qed


lemma enhance_step_returned_generator:
  assumes "ce_enhance env = EnhReturned ok"
    and "\<not> (ok \<and> path_exists (written files tp (ce_enhance_file env)) tp)"
    and "files fp = Some frame" and "fp \<noteq> tp"
  shows "enhance_step env files fp tp =
     (if copy_succeeds_within 3 (ce_copy env)
      then (Inr (), (written files tp (ce_enhance_file env))(tp \<mapsto> frame))
      else (Inl (the (fst (next_copy (snd (next_copy (snd (next_copy (ce_copy env)))))))),
            written files tp (ce_enhance_file env)))"
proof -
  have w: "written files tp (ce_enhance_file env) fp = Some frame"
    using assms by (simp add: written_other)
  have e: "path_exists files fp" using assms(3) by (simp add: path_exists_def)
  have g: "(ok \<and> path_exists (written files tp (ce_enhance_file env)) tp) = False"
    using assms(2) by simp
  note defs = enhance_step_def generate_thumbnail_chatgpt_def Let_def next_copy_def
    copy_file_ok copy_file_raised numeral_3_eq_3
  show ?thesis
  proof (cases "ce_copy env")
    case Nil
    with assms(1) g e w show ?thesis by (auto simp: defs)
  next
    case c1: (Cons a rest)
    show ?thesis
    proof (cases a)
      case None
      with c1 assms(1) g e w show ?thesis by (auto simp: defs)
    next
      case s1: (Some e1)
      show ?thesis
      proof (cases rest)
        case Nil
        with s1 c1 assms(1) g e w show ?thesis by (auto simp: defs)
      next
        case c2: (Cons b rest2)
        show ?thesis
        proof (cases b)
          case None
          with c2 s1 c1 assms(1) g e w show ?thesis by (auto simp: defs)
        next
          case s2: (Some e2)
          show ?thesis
          proof (cases rest2)
            case Nil
            with s2 c2 s1 c1 assms(1) g e w show ?thesis by (auto simp: defs)
          next
            case c3: (Cons d rest3)
            with s2 c2 s1 c1 assms(1) g e w show ?thesis by (cases d) (auto simp: defs)
          qed
        qed
      qed
    qed
  qed
qed

lemma enhance_step_fallback:
  assumes "ce_enhance env \<noteq> EnhReturned True \<or>
           \<not> path_exists (written files tp (ce_enhance_file env)) tp"
    and "files fp = Some frame" and "fp \<noteq> tp"
  shows "(fallback_copy_succeeds env \<longrightarrow>
            enhance_step env files fp tp =
              (Inr (), (written files tp (ce_enhance_file env))(tp \<mapsto> frame))) \<and>
         (\<not> fallback_copy_succeeds env \<longrightarrow>
            (\<exists>e. enhance_step env files fp tp = (Inl e, written files tp (ce_enhance_file env))))"
proof (cases "ce_enhance env")
  case (EnhRaised x)
  from enhance_step_raised_generator [of env x files fp frame tp] EnhRaised assms(2,3)
  show ?thesis by (simp add: fallback_copy_succeeds_def)
next
  case (EnhReturned ok)
  with assms(1) have "\<not> (ok \<and> path_exists (written files tp (ce_enhance_file env)) tp)"
    by auto
  from enhance_step_returned_generator [of env ok files tp fp frame] EnhReturned this assms(2,3)
  show ?thesis by (simp add: fallback_copy_succeeds_def)
qed



lemma upload_to_youtube_shape:
  "\<exists>r evs. upload_to_youtube env files vp tp clip_data =
      (r, EvUploadCall vp (case files tp of None \<Rightarrow> None | Some c \<Rightarrow> Some (tp, c)) # evs)"
  by (simp add: upload_to_youtube_def Let_def split: option.splits sum.splits prod.splits)

lemma upload_to_youtube_returns:
  "resumable_upload (ue_chunks env) 0 \<noteq> None \<Longrightarrow>
   fst (upload_to_youtube env files vp tp clip_data) \<noteq> None"
  by (auto simp: upload_to_youtube_result upload_result_cases split: option.splits sum.splits)



lemma process_clip_try_parse_error:
  "download_clip_segment env files (start_time_of c) (end_time_of c) vp = Inl e \<Longrightarrow>
   process_clip_try env c result vp fp tp files = Some (Inl e, files, [])"
  by (simp add: process_clip_try_def Let_def)

lemma process_clip_try_download_failed:
  "download_clip_segment env files (start_time_of c) (end_time_of c) vp = Inr (False, files1) \<Longrightarrow>
   process_clip_try env c result vp fp tp files =
     Some (Inr (result\<lparr>r_status := ''failed'',
                       r_error := Some (Msg ''Falha no download do segmento'')\<rparr>),
           files1, [EvDownload (start_time_of c) (end_time_of c) vp])"
  by (simp add: process_clip_try_def Let_def)

lemma process_clip_try_timestamp_error:
  assumes "download_clip_segment env files (start_time_of c) (end_time_of c) vp = Inr (True, files1)"
    and "time_to_seconds (thumbnail_timestamp_of c) = Inl e"
  shows "process_clip_try env c result vp fp tp files =
     Some (Inl e, files1, [EvDownload (start_time_of c) (end_time_of c) vp])"
proof -
  from assms(1) obtain start_sec where "time_to_seconds (start_time_of c) = Inr start_sec"
    by (auto dest: download_parses_start)
  with assms show ?thesis by (simp add: process_clip_try_def Let_def)
qed

lemma process_clip_try_format_error:
  assumes "download_clip_segment env files (start_time_of c) (end_time_of c) vp = Inr (True, files1)"
    and "time_to_seconds (start_time_of c) = Inr start_sec"
    and "time_to_seconds (thumbnail_timestamp_of c) = Inr thumb_sec"
    and "seconds_to_time (max 0 (thumb_sec - start_sec)) = Inl e"
  shows "process_clip_try env c result vp fp tp files =
     Some (Inl e, files1, [EvDownload (start_time_of c) (end_time_of c) vp])"
  using assms by (simp add: process_clip_try_def Let_def)

lemma process_clip_try_enhance_raised:
  assumes "download_clip_segment env files (start_time_of c) (end_time_of c) vp = Inr (True, files1)"
    and "time_to_seconds (start_time_of c) = Inr start_sec"
    and "time_to_seconds (thumbnail_timestamp_of c) = Inr thumb_sec"
    and "seconds_to_time (max 0 (thumb_sec - start_sec)) = Inr rel"
    and "files2 = written files1 fp (ce_capture_file env)"
    and "enhance_step env files2 fp tp = (Inl e, files3)"
  shows "process_clip_try env c result vp fp tp files =
     Some (Inl e, files3,
           [EvDownload (start_time_of c) (end_time_of c) vp, EvCapture vp rel fp] @
           (if path_exists files2 fp then [EvGenerate fp tp] else []))"
  using assms by (simp add: process_clip_try_def Let_def capture_files)

lemma process_clip_try_downloaded:
  assumes "download_clip_segment env files (start_time_of c) (end_time_of c) vp = Inr (True, files1)"
    and "time_to_seconds (start_time_of c) = Inr start_sec"
    and "time_to_seconds (thumbnail_timestamp_of c) = Inr thumb_sec"
    and "seconds_to_time (max 0 (thumb_sec - start_sec)) = Inr rel"
    and "files2 = written files1 fp (ce_capture_file env)"
    and "enhance_step env files2 fp tp = (Inr u, files3)"
    and "ev3 = [EvDownload (start_time_of c) (end_time_of c) vp, EvCapture vp rel fp] @
               (if path_exists files2 fp then [EvGenerate fp tp] else [])"
  shows "process_clip_try env c result vp fp tp files =
     (case upload_to_youtube (ce_upload env) files3 vp
             (if path_exists files3 tp then tp else fp) c of
        (None, evs) \<Rightarrow> None
      | (Some video_id, evs) \<Rightarrow>
          Some (Inr (if truthy video_id
                     then result\<lparr>r_status := ''success'', r_video_id := video_id\<rparr>
                     else result\<lparr>r_status := ''failed'',
                                 r_error := Some (Msg ''Falha no upload'')\<rparr>),
                files3, ev3 @ evs))"
  using assms
  by (simp add: process_clip_try_def Let_def capture_files split: prod.splits option.splits)

lemma cleanup_keeps_absent:
  "\<not> path_exists files p \<Longrightarrow> \<not> path_exists (cleanup_temp_files fails ps files) p"
  by (induction ps arbitrary: files) (auto simp: path_exists_def)

lemma cleanup_removes:
  "p \<in> set ps \<Longrightarrow> p \<notin> set fails \<Longrightarrow> \<not> path_exists (cleanup_temp_files fails ps files) p"
proof (induction ps arbitrary: files)
  case Nil
  then show ?case by simp
next
  case (Cons q ps)
  show ?case
  proof (cases "q = p")
    case True
    have "\<not> path_exists (files(p := None)) p" by (simp add: path_exists_def)
    with True Cons.prems show ?thesis by (simp add: cleanup_keeps_absent)
  next
    case False
    with Cons show ?thesis by simp
  qed
qed

lemma cleanup_failed_stays:
  "p \<in> set fails \<Longrightarrow> cleanup_temp_files fails ps files p = files p"
  by (induction ps arbitrary: files) auto



lemma process_clip_normal:
  "process_clip_try env c (initial_result c i) (video_path_of (clip_id_of c i))
      (frame_path_of (clip_id_of c i)) (thumbnail_path_of (clip_id_of c i)) files =
     Some (Inr r, files1, evs) \<Longrightarrow>
   process_clip env c i files =
     Some (r, cleanup_temp_files (ce_unlink_fails env)
                [video_path_of (clip_id_of c i), frame_path_of (clip_id_of c i),
                 thumbnail_path_of (clip_id_of c i)] files1, evs)"
  by (simp add: process_clip_def Let_def)

lemma process_clip_raised:
  "process_clip_try env c (initial_result c i) (video_path_of (clip_id_of c i))
      (frame_path_of (clip_id_of c i)) (thumbnail_path_of (clip_id_of c i)) files =
     Some (Inl e, files1, evs) \<Longrightarrow>
   process_clip env c i files =
     Some ((initial_result c i)\<lparr>r_status := ''error'', r_error := Some (StrOf e)\<rparr>,
           cleanup_temp_files (ce_unlink_fails env)
                [video_path_of (clip_id_of c i), frame_path_of (clip_id_of c i),
                 thumbnail_path_of (clip_id_of c i)] files1, evs)"
  by (simp add: process_clip_def Let_def)

lemma process_clip_hangs:
  "process_clip_try env c (initial_result c i) (video_path_of (clip_id_of c i))
      (frame_path_of (clip_id_of c i)) (thumbnail_path_of (clip_id_of c i)) files = None \<Longrightarrow>
   process_clip env c i files = None"
  by (simp add: process_clip_def Let_def)



lemma initial_result_fields:
  "r_clip_id (initial_result c i) = clip_id_of c i"
  "r_title (initial_result c i) = cd_title c"
  by (simp_all add: initial_result_def)

lemma upload_to_youtube_truthy:
  "fst (upload_to_youtube env files vp tp clip_data) = Some v \<Longrightarrow> truthy v = (v \<noteq> None)"
proof (cases v)
  case None
  then show ?thesis by simp
next
  case (Some y)
  assume "fst (upload_to_youtube env files vp tp clip_data) = Some v"
  with Some show ?thesis
    by (auto simp: upload_to_youtube_result split: option.splits sum.splits if_splits)
qed



lemma process_clip_uploads:
  assumes dl: "download_clip_segment env files (start_time_of c) (end_time_of c)
                 (video_path_of (clip_id_of c i)) = Inr (True, files1)"
    and st: "time_to_seconds (start_time_of c) = Inr start_sec"
    and ts: "time_to_seconds (thumbnail_timestamp_of c) = Inr thumb_sec"
    and fm: "seconds_to_time (max 0 (thumb_sec - start_sec)) = Inr rel"
    and f2: "files2 = written files1 (frame_path_of (clip_id_of c i)) (ce_capture_file env)"
    and en: "enhance_step env files2 (frame_path_of (clip_id_of c i))
               (thumbnail_path_of (clip_id_of c i)) = (Inr u, files3)"
    and up: "upload_to_youtube (ce_upload env) files3 (video_path_of (clip_id_of c i))
               (if path_exists files3 (thumbnail_path_of (clip_id_of c i))
                then thumbnail_path_of (clip_id_of c i) else frame_path_of (clip_id_of c i)) c =
             (Some video_id, uevs)"
  shows "process_clip env c i files =
           Some ((initial_result c i)
                   \<lparr>r_status := (if video_id = None then ''failed'' else ''success''),
                    r_video_id := video_id,
                    r_error := (if video_id = None then Some (Msg ''Falha no upload'') else None)\<rparr>,
                 cleanup_temp_files (ce_unlink_fails env)
                   [video_path_of (clip_id_of c i), frame_path_of (clip_id_of c i),
                    thumbnail_path_of (clip_id_of c i)] files3,
                 [EvDownload (start_time_of c) (end_time_of c) (video_path_of (clip_id_of c i)),
                  EvCapture (video_path_of (clip_id_of c i)) rel (frame_path_of (clip_id_of c i))]
                 @ (if path_exists files2 (frame_path_of (clip_id_of c i))
                    then [EvGenerate (frame_path_of (clip_id_of c i))
                            (thumbnail_path_of (clip_id_of c i))]
                    else [])
                 @ uevs)"
proof -
  let ?vp = "video_path_of (clip_id_of c i)"
  let ?fp = "frame_path_of (clip_id_of c i)"
  let ?tp = "thumbnail_path_of (clip_id_of c i)"
  let ?ev3 = "[EvDownload (start_time_of c) (end_time_of c) ?vp, EvCapture ?vp rel ?fp] @
      (if path_exists files2 ?fp then [EvGenerate ?fp ?tp] else [])"
  from up have tr: "truthy video_id = (video_id \<noteq> None)"
    using upload_to_youtube_truthy [of "ce_upload env" files3] by (metis fst_conv)
  note t = process_clip_try_downloaded [OF dl st ts fm f2 en refl, of "initial_result c i"]
  show ?thesis
  proof (cases "video_id = None")
    case True
    with t up tr have "process_clip_try env c (initial_result c i) ?vp ?fp ?tp files =
      Some (Inr ((initial_result c i)\<lparr>r_status := ''failed'', r_video_id := None,
                   r_error := Some (Msg ''Falha no upload'')\<rparr>), files3, ?ev3 @ uevs)"
      by (simp add: initial_result_def)
    from process_clip_normal [OF this] True show ?thesis by simp
  next
    case False
    with t up tr have "process_clip_try env c (initial_result c i) ?vp ?fp ?tp files =
      Some (Inr ((initial_result c i)\<lparr>r_status := ''success'', r_video_id := video_id,
                   r_error := None\<rparr>), files3, ?ev3 @ uevs)"
      by (simp add: initial_result_def)
    from process_clip_normal [OF this] False show ?thesis by simp
  qed
qed

lemma process_clip_outcome:
  assumes "resumable_upload (ue_chunks (ce_upload env)) 0 \<noteq> None"
  shows "\<exists>r files1 evs.
           process_clip env c i files =
             Some (r, cleanup_temp_files (ce_unlink_fails env)
                        [video_path_of (clip_id_of c i), frame_path_of (clip_id_of c i),
                         thumbnail_path_of (clip_id_of c i)] files1, evs) \<and>
           r_clip_id r = clip_id_of c i \<and> r_title r = cd_title c \<and>
           ((\<not> list_ex is_upload_event evs \<and>
             (r_status r = ''failed'' \<or> r_status r = ''error'')) \<or>
            (\<exists>files3 ta v.
               fst (upload_to_youtube (ce_upload env) files3 (video_path_of (clip_id_of c i)) ta c) =
                 Some v \<and>
               list_ex is_upload_event evs \<and>
               r_status r = (if v = None then ''failed'' else ''success'') \<and>
               r_video_id r = v \<and>
               r_error r = (if v = None then Some (Msg ''Falha no upload'') else None)))"
    (is "\<exists>r files1 evs. ?P r files1 evs")
proof -
  let ?vp = "video_path_of (clip_id_of c i)"
  let ?fp = "frame_path_of (clip_id_of c i)"
  let ?tp = "thumbnail_path_of (clip_id_of c i)"
  let ?r0 = "initial_result c i"
  let ?dl = "download_clip_segment env files (start_time_of c) (end_time_of c) ?vp"
  let ?block = "process_clip_try env c ?r0 ?vp ?fp ?tp files"
  have raised: ?thesis
    if "?block = Some (Inl e, f1, evs)" and "\<not> list_ex is_upload_event evs" for e f1 evs
  proof -
    note pc = process_clip_raised [OF that(1)]
    have "?P (?r0\<lparr>r_status := ''error'', r_error := Some (StrOf e)\<rparr>) f1 evs"
      using pc that(2) by (simp add: initial_result_fields)
    then show ?thesis by blast
  qed
  show ?thesis
  proof (cases ?dl)
    case (Inl e)
    from process_clip_try_parse_error [OF Inl] show ?thesis by (rule raised) simp
  next
    case (Inr res)
    obtain ok files1 where res: "res = (ok, files1)" by (cases res)
    show ?thesis
    proof (cases ok)
      case False
      with Inr res have "?dl = Inr (False, files1)" by simp
      note process_clip_try_download_failed [OF this, of ?r0 ?fp ?tp]
      note pc = process_clip_normal [OF this]
      have "?P (?r0\<lparr>r_status := ''failed'',
                     r_error := Some (Msg ''Falha no download do segmento'')\<rparr>) files1
              [EvDownload (start_time_of c) (end_time_of c) ?vp]"
        using pc by (simp add: initial_result_fields)
      then show ?thesis by blast
    next
      case True
      with Inr res have dl: "?dl = Inr (True, files1)" by simp
      then obtain start_sec where st: "time_to_seconds (start_time_of c) = Inr start_sec"
        by (auto dest: download_parses_start)
      show ?thesis
      proof (cases "time_to_seconds (thumbnail_timestamp_of c)")
        case (Inl e)
        from process_clip_try_timestamp_error [OF dl Inl] show ?thesis by (rule raised) simp
      next
        case ts: (Inr thumb_sec)
        show ?thesis
        proof (cases "seconds_to_time (max 0 (thumb_sec - start_sec))")
          case (Inl e)
          from process_clip_try_format_error [OF dl st ts Inl] show ?thesis by (rule raised) simp
        next
          case fm: (Inr rel)
          define files2 where "files2 = written files1 ?fp (ce_capture_file env)"
          obtain res3 files3 where en: "enhance_step env files2 ?fp ?tp = (res3, files3)"
            by (cases "enhance_step env files2 ?fp ?tp")
          show ?thesis
          proof (cases res3)
            case (Inl e)
            with en have "enhance_step env files2 ?fp ?tp = (Inl e, files3)" by simp
            from process_clip_try_enhance_raised [OF dl st ts fm files2_def this]
            show ?thesis by (rule raised) simp
          next
            case (Inr u)
            with en have en': "enhance_step env files2 ?fp ?tp = (Inr u, files3)" by simp
            let ?ta = "if path_exists files3 ?tp then ?tp else ?fp"
            let ?up = "upload_to_youtube (ce_upload env) files3 ?vp ?ta c"
            from assms have "fst ?up \<noteq> None" by (rule upload_to_youtube_returns)
            then obtain v uevs where up: "?up = (Some v, uevs)" by (cases ?up) auto
            obtain uevs' where sh: "uevs = EvUploadCall ?vp
                (case files3 ?ta of None \<Rightarrow> None | Some x \<Rightarrow> Some (?ta, x)) # uevs'"
              using upload_to_youtube_shape [of "ce_upload env" files3 ?vp ?ta c] up by auto
            note pc = process_clip_uploads [OF dl st ts fm files2_def en' up]
            have f: "fst ?up = Some v" using up by simp
            let ?r = "?r0\<lparr>r_status := (if v = None then ''failed'' else ''success''),
                r_video_id := v,
                r_error := (if v = None then Some (Msg ''Falha no upload'') else None)\<rparr>"
            let ?evs = "[EvDownload (start_time_of c) (end_time_of c) ?vp, EvCapture ?vp rel ?fp]
                @ (if path_exists files2 ?fp then [EvGenerate ?fp ?tp] else []) @ uevs"
            have ev: "list_ex is_upload_event ?evs" using sh by simp
            have "?P ?r files3 ?evs"
            proof (intro conjI disjI2 exI)
              show "process_clip env c i files =
                  Some (?r, cleanup_temp_files (ce_unlink_fails env) [?vp, ?fp, ?tp] files3, ?evs)"
                by (rule pc)
              show "r_clip_id ?r = clip_id_of c i" by (simp add: initial_result_fields)
              show "r_title ?r = cd_title c" by (simp add: initial_result_fields)
              show "fst ?up = Some v" by (rule f)
              show "list_ex is_upload_event ?evs" by (rule ev)
              show "r_status ?r = (if v = None then ''failed'' else ''success'')" by simp
              show "r_video_id ?r = v" by simp
              show "r_error ?r = (if v = None then Some (Msg ''Falha no upload'') else None)"
                by simp
            qed
            then show ?thesis by blast
          qed
        qed
      qed
    qed
  qed
qed

lemma process_clip_returns:
  assumes "resumable_upload (ue_chunks (ce_upload env)) 0 \<noteq> None"
  shows "\<exists>r files1 evs.
           process_clip env c i files =
             Some (r, cleanup_temp_files (ce_unlink_fails env)
                        [video_path_of (clip_id_of c i), frame_path_of (clip_id_of c i),
                         thumbnail_path_of (clip_id_of c i)] files1, evs) \<and>
           r_clip_id r = clip_id_of c i \<and> r_title r = cd_title c \<and>
           r_status r \<in> set [''success'', ''failed'', ''error'']"
proof -
  from process_clip_outcome [OF assms, of c i files]
  obtain r files1 evs where
    a: "process_clip env c i files =
          Some (r, cleanup_temp_files (ce_unlink_fails env)
                     [video_path_of (clip_id_of c i), frame_path_of (clip_id_of c i),
                      thumbnail_path_of (clip_id_of c i)] files1, evs)"
    and b: "r_clip_id r = clip_id_of c i" "r_title r = cd_title c"
    and d: "(\<not> list_ex is_upload_event evs \<and>
             (r_status r = ''failed'' \<or> r_status r = ''error'')) \<or>
            (\<exists>files3 ta v.
               fst (upload_to_youtube (ce_upload env) files3 (video_path_of (clip_id_of c i)) ta c) =
                 Some v \<and>
               list_ex is_upload_event evs \<and>
               r_status r = (if v = None then ''failed'' else ''success'') \<and>
               r_video_id r = v \<and>
               r_error r = (if v = None then Some (Msg ''Falha no upload'') else None))"
    by (elim exE conjE) (rule that)
  from d have "r_status r = ''success'' \<or> r_status r = ''failed'' \<or> r_status r = ''error''"
  proof (elim disjE conjE exE)
    fix files3 ta v
    assume "r_status r = (if v = None then ''failed'' else ''success'')"
    then show ?thesis by (cases v) simp_all
  qed simp_all
  then have "r_status r \<in> set [''success'', ''failed'', ''error'']" by auto
  with a b show ?thesis by blast
qed



lemma example_times:
  "time_to_seconds ''00:10:00'' = Inr 600"
  "time_to_seconds ''00:11:00'' = Inr 660"
  "time_to_seconds ''00:10:30'' = Inr 630"
  by code_simp+

lemma example_clip_fields:
  "start_time_of example_clip = ''00:10:00''"
  "end_time_of example_clip = ''00:11:00''"
  "thumbnail_timestamp_of example_clip = ''00:10:30''"
  "clip_id_of example_clip i = ''c1''"
  "video_path_of ''c1'' = ''temp_clips/c1.mp4''"
  "frame_path_of ''c1'' = ''temp_clips/c1_frame.png''"
  "thumbnail_path_of ''c1'' = ''temp_clips/c1_thumbnail.png''"
  by (simp_all add: start_time_of_def end_time_of_def thumbnail_timestamp_of_def clip_id_of_def
      example_clip_def get_or_def video_path_of_def frame_path_of_def thumbnail_path_of_def
      temp_path_def)

lemma example_download_ok:
  "ce_download env = Exited 0 \<Longrightarrow> ce_download_file env = Some v \<Longrightarrow>
   download_clip_segment env files ''00:10:00'' ''00:11:00'' p = Inr (True, files(p \<mapsto> v))"
  by (simp add: download_clip_segment_def example_times written_def path_exists_def)

lemma example_download_failed:
  "ce_download env = Exited 1 \<Longrightarrow>
   download_clip_segment env files ''00:10:00'' ''00:11:00'' p =
     Inr (False, written files p (ce_download_file env))"
  by (simp add: download_clip_segment_def example_times)

lemma example_upload_returns:
  "resumable_upload (ue_chunks (ce_upload example_env)) 0 = Some (Inr (Some ''abc''))"
  by (simp add: example_env_def example_upload_def)

lemma example_relative_thumb: "seconds_to_time (max 0 (630 - 600)) = Inr ''00:00:30''"
  by code_simp

text \<open>
  C3. When the segment download reports failure, the outcome of the clip has the status
  \<open>failed\<close> and the trace of the clip holds no event of the upload step.
\<close>

theorem download_failure_no_upload:
  assumes "download_clip_segment env files (start_time_of c) (end_time_of c)
             (video_path_of (clip_id_of c i)) = Inr (False, files1)"
  shows "\<exists>r files' evs. process_clip env c i files = Some (r, files', evs) \<and>
           r_status r = ''failed'' \<and>
           r_error r = Some (Msg ''Falha no download do segmento'') \<and>
           \<not> list_ex is_upload_event evs"
proof -
  note process_clip_try_download_failed [OF assms, of "initial_result c i"
      "frame_path_of (clip_id_of c i)" "thumbnail_path_of (clip_id_of c i)"]
  from process_clip_normal [OF this] show ?thesis by simp
qed

theorem download_failure_no_upload_witness:
  "download_clip_segment (example_env\<lparr>ce_download := Exited 1\<rparr>) no_files
     (start_time_of example_clip) (end_time_of example_clip)
     (video_path_of (clip_id_of example_clip 0)) =
     Inr (False, no_files(''temp_clips/c1.mp4'' \<mapsto> ''video'')) \<and>
   (\<exists>r files' evs.
      process_clip (example_env\<lparr>ce_download := Exited 1\<rparr>) example_clip 0 no_files =
        Some (r, files', evs) \<and>
      r_status r = ''failed'' \<and> r_error r = Some (Msg ''Falha no download do segmento'') \<and>
      \<not> list_ex is_upload_event evs)"
proof -
  have h: "download_clip_segment (example_env\<lparr>ce_download := Exited 1\<rparr>) no_files
     (start_time_of example_clip) (end_time_of example_clip)
     (video_path_of (clip_id_of example_clip 0)) =
     Inr (False, no_files(''temp_clips/c1.mp4'' \<mapsto> ''video''))"
    by (simp add: example_clip_fields example_download_failed written_def example_env_def)
  from h download_failure_no_upload [OF h] show ?thesis by simp
qed



text \<open>
  C5, as the code has it. On every way out of \<open>process_clip\<close> (success, failure,
  exception) the three temporary files are removed, except a file whose removal itself
  raises: that failure is logged, not raised, and the file stays.
\<close>

theorem cleanup_best_effort:
  assumes "resumable_upload (ue_chunks (ce_upload env)) 0 \<noteq> None"
  shows "\<exists>r files' evs. process_clip env c i files = Some (r, files', evs) \<and>
           (\<forall>p \<in> set [video_path_of (clip_id_of c i), frame_path_of (clip_id_of c i),
                        thumbnail_path_of (clip_id_of c i)].
              p \<notin> set (ce_unlink_fails env) \<longrightarrow> \<not> path_exists files' p)"
proof -
  let ?temps = "[video_path_of (clip_id_of c i), frame_path_of (clip_id_of c i),
                 thumbnail_path_of (clip_id_of c i)]"
  from process_clip_returns [OF assms, of c i files]
  obtain r files1 evs where pc: "process_clip env c i files =
      Some (r, cleanup_temp_files (ce_unlink_fails env) ?temps files1, evs)"
    by blast
  show ?thesis
  proof (intro exI conjI ballI impI)
    show "process_clip env c i files =
        Some (r, cleanup_temp_files (ce_unlink_fails env) ?temps files1, evs)"
      by (rule pc)
  next
    fix p
    assume "p \<in> set ?temps" and "p \<notin> set (ce_unlink_fails env)"
    then show "\<not> path_exists (cleanup_temp_files (ce_unlink_fails env) ?temps files1) p"
      by (rule cleanup_removes)
  qed
qed

theorem cleanup_best_effort_witness:
  "resumable_upload (ue_chunks (ce_upload example_env)) 0 \<noteq> None \<and>
   (\<exists>r files' evs. process_clip example_env example_clip 0 no_files = Some (r, files', evs) \<and>
      \<not> path_exists files' ''temp_clips/c1.mp4'' \<and>
      \<not> path_exists files' ''temp_clips/c1_frame.png'' \<and>
      \<not> path_exists files' ''temp_clips/c1_thumbnail.png'')"
proof -
  have u: "resumable_upload (ue_chunks (ce_upload example_env)) 0 \<noteq> None"
    by (simp add: example_upload_returns)
  have "ce_unlink_fails example_env = []" by (simp add: example_env_def)
  with cleanup_best_effort [OF u, of example_clip 0 no_files] u show ?thesis
    by (simp add: example_clip_fields)
qed



theorem temp_file_left_behind:
  "path_exists
     (fst (snd (the (process_clip (example_env\<lparr>ce_unlink_fails := [''temp_clips/c1.mp4'']\<rparr>)
                       example_clip 0 no_files))))
     ''temp_clips/c1.mp4''"
  by code_simp





text \<open>
  C2, as the code has it. \<open>MAX_RETRIES = 5\<close> is the number of retries, and the counter
  is never reset: the loop gives up at the sixth retriable failure (an exception that the
  loop catches, with a text that is not empty) of one transfer, chunks in progress in
  between or not. Then \<open>upload\<close> returns \<open>None\<close> and does not raise, and a clip that
  reached the upload step gets the status \<open>failed\<close> with the message
  \<open>Falha no upload\<close>. After five such failures or fewer the loop goes on, and a
  transfer that then completes returns its video id.
\<close>

theorem upload_gives_up_after_six:
  assumes "list_all keeps_looping pre"
  shows "(6 \<le> length (filter retriable_failure pre) \<and> ue_chunks (ce_upload env) = pre @ rest \<longrightarrow>
            (ue_media (ce_upload env) = None \<longrightarrow>
               fst (upload (ce_upload env) files0 video title description tags thumb) =
                 Some (Inr None)) \<and>
            (\<exists>r files' evs. process_clip env c i files = Some (r, files', evs) \<and>
               (list_ex is_upload_event evs \<longrightarrow>
                  r_status r = ''failed'' \<and> r_error r = Some (Msg ''Falha no upload'') \<and>
                  r_video_id r = None))) \<and>
         (length (filter retriable_failure pre) \<le> 5 \<and>
          ue_chunks uenv = pre @ Completed (Some video_id) # rest \<and> video_id \<noteq> [] \<and>
          path_exists files0 video \<and> ue_media uenv = None \<and> ue_insert uenv = None \<longrightarrow>
            fst (upload uenv files0 video title description tags thumb) =
              Some (Inr (Some video_id)))"
proof (intro conjI impI)
  assume a: "6 \<le> length (filter retriable_failure pre) \<and> ue_chunks (ce_upload env) = pre @ rest"
  then have ru: "resumable_upload (ue_chunks (ce_upload env)) 0 = Some (Inr None)"
    using assms by (simp add: loop_gives_up MAX_RETRIES_def)
  {
    assume "ue_media (ce_upload env) = None"
    with ru show "fst (upload (ce_upload env) files0 video title description tags thumb) =
        Some (Inr None)"
      by (simp add: upload_result_cases split: option.splits)
  }
  from ru have ret: "resumable_upload (ue_chunks (ce_upload env)) 0 \<noteq> None" by simp
  from process_clip_outcome [OF ret, of c i files]
  obtain r files1 evs where
    pc: "process_clip env c i files =
          Some (r, cleanup_temp_files (ce_unlink_fails env)
                     [video_path_of (clip_id_of c i), frame_path_of (clip_id_of c i),
                      thumbnail_path_of (clip_id_of c i)] files1, evs)"
    and d: "(\<not> list_ex is_upload_event evs \<and>
             (r_status r = ''failed'' \<or> r_status r = ''error'')) \<or>
            (\<exists>files3 ta v.
               fst (upload_to_youtube (ce_upload env) files3 (video_path_of (clip_id_of c i)) ta c) =
                 Some v \<and>
               list_ex is_upload_event evs \<and>
               r_status r = (if v = None then ''failed'' else ''success'') \<and>
               r_video_id r = v \<and>
               r_error r = (if v = None then Some (Msg ''Falha no upload'') else None))"
    by (elim exE conjE) (rule that)
  have "list_ex is_upload_event evs \<longrightarrow>
      r_status r = ''failed'' \<and> r_error r = Some (Msg ''Falha no upload'') \<and> r_video_id r = None"
  proof
    assume "list_ex is_upload_event evs"
    with d obtain files3 ta v where
      u: "fst (upload_to_youtube (ce_upload env) files3 (video_path_of (clip_id_of c i)) ta c) =
            Some v"
      and s: "r_status r = (if v = None then ''failed'' else ''success'')" "r_video_id r = v"
        "r_error r = (if v = None then Some (Msg ''Falha no upload'') else None)"
      by blast
    from upload_to_youtube_gives_up [OF ru] u have "v = None" by simp
    with s show "r_status r = ''failed'' \<and> r_error r = Some (Msg ''Falha no upload'') \<and>
        r_video_id r = None" by simp
  qed
  with pc show "\<exists>r files' evs. process_clip env c i files = Some (r, files', evs) \<and>
      (list_ex is_upload_event evs \<longrightarrow>
         r_status r = ''failed'' \<and> r_error r = Some (Msg ''Falha no upload'') \<and>
         r_video_id r = None)"
    by blast
next
  assume b: "length (filter retriable_failure pre) \<le> 5 \<and>
      ue_chunks uenv = pre @ Completed (Some video_id) # rest \<and> video_id \<noteq> [] \<and>
      path_exists files0 video \<and> ue_media uenv = None \<and> ue_insert uenv = None"
  then have "resumable_upload (ue_chunks uenv) 0 =
      resumable_upload (Completed (Some video_id) # rest)
        (0 + length (filter retriable_failure pre))"
    using assms by (simp add: loop_goes_on MAX_RETRIES_def)
  then have "resumable_upload (ue_chunks uenv) 0 = Some (Inr (Some video_id))" by simp
  with b show "fst (upload uenv files0 video title description tags thumb) =
      Some (Inr (Some video_id))"
    by (simp add: upload_result_cases)
qed

lemma example_scripts:
  "list_all keeps_looping (InProgress # six_failures)"
  "length (filter retriable_failure (InProgress # six_failures)) = 6"
  "list_all keeps_looping (InProgress # five_failures)"
  "length (filter retriable_failure (InProgress # five_failures)) = 5"
  by (simp_all add: six_failures_def five_failures_def keeps_looping_def retriable_failure_def
      RETRIABLE_STATUS_CODES_def list_all_iff)

lemma example_gives_up_reaches_upload:
  "list_ex is_upload_event
     (snd (snd (the (process_clip
        (example_env\<lparr>ce_upload :=
           example_upload\<lparr>ue_chunks := (InProgress # six_failures) @ [Completed (Some ''abc'')]\<rparr>\<rparr>)
        example_clip 0 no_files))))"
  by code_simp

theorem upload_gives_up_after_six_witness:
  "list_all keeps_looping (InProgress # six_failures) \<and>
   6 \<le> length (filter retriable_failure (InProgress # six_failures)) \<and>
   fst (upload (example_upload\<lparr>ue_chunks := (InProgress # six_failures) @ [Completed (Some ''abc'')]\<rparr>)
          example_files ''v.mp4'' ''T'' ''D'' [] None) = Some (Inr None) \<and>
   (\<exists>r files' evs.
      process_clip
        (example_env\<lparr>ce_upload :=
           example_upload\<lparr>ue_chunks := (InProgress # six_failures) @ [Completed (Some ''abc'')]\<rparr>\<rparr>)
        example_clip 0 no_files = Some (r, files', evs) \<and>
      list_ex is_upload_event evs \<and>
      r_status r = ''failed'' \<and> r_error r = Some (Msg ''Falha no upload'') \<and>
      r_video_id r = None) \<and>
   list_all keeps_looping (InProgress # five_failures) \<and>
   length (filter retriable_failure (InProgress # five_failures)) \<le> 5 \<and>
   fst (upload (example_upload\<lparr>ue_chunks := (InProgress # five_failures) @ [Completed (Some ''abc'')]\<rparr>)
          example_files ''v.mp4'' ''T'' ''D'' [] None) = Some (Inr (Some ''abc''))"
proof -
  let ?six = "example_upload\<lparr>ue_chunks := (InProgress # six_failures) @ [Completed (Some ''abc'')]\<rparr>"
  let ?five = "example_upload\<lparr>ue_chunks := (InProgress # five_failures) @ [Completed (Some ''abc'')]\<rparr>"
  let ?env = "example_env\<lparr>ce_upload := ?six\<rparr>"
  have s6: "6 \<le> length (filter retriable_failure (InProgress # six_failures)) \<and>
      ue_chunks (ce_upload ?env) = (InProgress # six_failures) @ [Completed (Some ''abc'')]"
    using example_scripts(2) by simp
  have m: "ue_media (ce_upload ?env) = None" by (simp add: example_upload_def)
  have ex: "path_exists example_files ''v.mp4''" by (simp add: path_exists_def example_files_def)
  note t6 = upload_gives_up_after_six [OF example_scripts(1),
      where rest = "[Completed (Some ''abc'')]" and env = ?env and ?files0.0 = example_files
        and video = "''v.mp4''" and title = "''T''" and description = "''D''" and tags = "[]"
        and thumb = None and c = example_clip and i = 0 and files = no_files,
      THEN conjunct1, rule_format, OF s6]
  from t6 m have u6: "fst (upload (ce_upload ?env) example_files ''v.mp4'' ''T'' ''D'' [] None) =
      Some (Inr None)" by blast
  from t6 obtain r files' evs where
    pc: "process_clip ?env example_clip 0 no_files = Some (r, files', evs)"
    and st: "list_ex is_upload_event evs \<longrightarrow>
      r_status r = ''failed'' \<and> r_error r = Some (Msg ''Falha no upload'') \<and> r_video_id r = None"
    by blast
  from pc example_gives_up_reaches_upload have le: "list_ex is_upload_event evs" by simp
  with st have res: "r_status r = ''failed'' \<and> r_error r = Some (Msg ''Falha no upload'') \<and>
      r_video_id r = None" by blast
  have s5: "length (filter retriable_failure (InProgress # five_failures)) \<le> 5 \<and>
      ue_chunks ?five = (InProgress # five_failures) @ Completed (Some ''abc'') # [] \<and>
      ''abc'' \<noteq> [] \<and> path_exists example_files ''v.mp4'' \<and> ue_media ?five = None \<and>
      ue_insert ?five = None"
    using example_scripts(4) ex by (simp add: example_upload_def)
  note t5 = upload_gives_up_after_six [OF example_scripts(3),
      where rest = "[]" and uenv = ?five and ?files0.0 = example_files
        and video = "''v.mp4''" and title = "''T''" and description = "''D''" and tags = "[]"
        and thumb = None and video_id = "''abc''",
      THEN conjunct2, rule_format, OF s5]
  have u6': "fst (upload ?six example_files ''v.mp4'' ''T'' ''D'' [] None) = Some (Inr None)"
    using u6 by simp
  have l6: "6 \<le> length (filter retriable_failure (InProgress # six_failures))"
    using example_scripts(2) by simp
  have l5: "length (filter retriable_failure (InProgress # five_failures)) \<le> 5"
    using example_scripts(4) by simp
  from pc le res have "\<exists>r files' evs.
      process_clip ?env example_clip 0 no_files = Some (r, files', evs) \<and>
      list_ex is_upload_event evs \<and>
      r_status r = ''failed'' \<and> r_error r = Some (Msg ''Falha no upload'') \<and>
      r_video_id r = None" by blast
  with example_scripts(1) l6 u6' example_scripts(3) l5 t5 show ?thesis by blast
qed



text \<open>
  C4, as the code has it. When the thumbnail generator fails (it raises, it returns a
  failure, or it leaves no file) on a captured frame, the frame is copied to the
  thumbnail path, the copy being tried again in each handler. If one of these copies
  succeeds, the clip reaches the upload step, the thumbnail handed to the upload holds
  the captured frame, and the status comes from the upload. If every copy raises, the
  last exception is caught at the boundary of the clip: the status is \<open>error\<close> and no
  upload is attempted. In both cases \<open>process_clip\<close> returns an outcome.
\<close>

theorem enhancer_failure_absorbed:
  assumes "download_clip_segment env files (start_time_of c) (end_time_of c)
             (video_path_of (clip_id_of c i)) = Inr (True, files1)"
    and "time_to_seconds (start_time_of c) = Inr start_sec"
    and "time_to_seconds (thumbnail_timestamp_of c) = Inr thumb_sec"
    and "seconds_to_time (max 0 (thumb_sec - start_sec)) = Inr rel"
    and "snd (capture_thumbnail_frame env files1 (video_path_of (clip_id_of c i)) rel
                (frame_path_of (clip_id_of c i))) = files2"
    and "files2 (frame_path_of (clip_id_of c i)) = Some frame"
    and "ce_enhance env \<noteq> EnhReturned True \<or>
         \<not> path_exists (written files2 (thumbnail_path_of (clip_id_of c i)) (ce_enhance_file env))
              (thumbnail_path_of (clip_id_of c i))"
    and "resumable_upload (ue_chunks (ce_upload env)) 0 \<noteq> None"
  shows "(fallback_copy_succeeds env \<longrightarrow>
            (\<exists>r files' evs. process_clip env c i files = Some (r, files', evs) \<and>
               EvUploadCall (video_path_of (clip_id_of c i))
                 (Some (thumbnail_path_of (clip_id_of c i), frame)) \<in> set evs \<and>
               (r_status r = ''success'' \<or> r_status r = ''failed''))) \<and>
         (\<not> fallback_copy_succeeds env \<longrightarrow>
            (\<exists>r files' evs e. process_clip env c i files = Some (r, files', evs) \<and>
               r_status r = ''error'' \<and> r_error r = Some (StrOf e) \<and>
               \<not> list_ex is_upload_event evs))"
proof -
  let ?vp = "video_path_of (clip_id_of c i)"
  let ?fp = "frame_path_of (clip_id_of c i)"
  let ?tp = "thumbnail_path_of (clip_id_of c i)"
  have f2: "files2 = written files1 ?fp (ce_capture_file env)"
    using assms(5) by (simp add: capture_files)
  have ex: "path_exists files2 ?fp" using assms(6) by (simp add: path_exists_def)
  note fb = enhance_step_fallback [OF assms(7) assms(6) temp_paths_distinct(3)]
  show ?thesis
  proof (intro conjI impI)
    assume "fallback_copy_succeeds env"
    with fb have en: "enhance_step env files2 ?fp ?tp =
        (Inr (), (written files2 ?tp (ce_enhance_file env))(?tp \<mapsto> frame))" by blast
    define files3 where "files3 = (written files2 ?tp (ce_enhance_file env))(?tp \<mapsto> frame)"
    then have tpe: "path_exists files3 ?tp" and tpc: "files3 ?tp = Some frame"
      by (simp_all add: path_exists_def)
    let ?up = "upload_to_youtube (ce_upload env) files3 ?vp
        (if path_exists files3 ?tp then ?tp else ?fp) c"
    obtain v uevs where up: "?up = (v, EvUploadCall ?vp (Some (?tp, frame)) # uevs)"
      using upload_to_youtube_shape [of "ce_upload env" files3 ?vp ?tp c] tpe tpc by auto
    from assms(8) have "fst ?up \<noteq> None" by (rule upload_to_youtube_returns)
    with up obtain video_id where v: "v = Some video_id" by auto
    from process_clip_uploads [OF assms(1-4) f2 en [folded files3_def] up [unfolded v]]
    show "\<exists>r files' evs. process_clip env c i files = Some (r, files', evs) \<and>
        EvUploadCall ?vp (Some (?tp, frame)) \<in> set evs \<and>
        (r_status r = ''success'' \<or> r_status r = ''failed'')"
      by auto
  next
    assume "\<not> fallback_copy_succeeds env"
    with fb obtain e where en: "enhance_step env files2 ?fp ?tp =
        (Inl e, written files2 ?tp (ce_enhance_file env))" by blast
    note process_clip_try_enhance_raised [OF assms(1-4) f2 en, of "initial_result c i"]
    from process_clip_raised [OF this] ex
    show "\<exists>r files' evs e. process_clip env c i files = Some (r, files', evs) \<and>
        r_status r = ''error'' \<and> r_error r = Some (StrOf e) \<and> \<not> list_ex is_upload_event evs"
      by simp
  qed
qed

theorem enhancer_failure_with_failing_copy:
  "r_status (fst (the (process_clip example_disk_full example_clip 0 no_files))) = ''error'' \<and>
   \<not> list_ex is_upload_event
        (snd (snd (the (process_clip example_disk_full example_clip 0 no_files))))"
  by code_simp

lemma example_enhancer_worlds:
  "fallback_copy_succeeds
     (example_env\<lparr>ce_enhance := EnhReturned False, ce_copy := [Some (OSError ''busy'')]\<rparr>)"
  "\<not> fallback_copy_succeeds example_disk_full"
  by (simp_all add: fallback_copy_succeeds_def example_disk_full_def example_env_def
      numeral_2_eq_2 numeral_3_eq_3)

theorem enhancer_failure_absorbed_witness:
  "fallback_copy_succeeds
     (example_env\<lparr>ce_enhance := EnhReturned False, ce_copy := [Some (OSError ''busy'')]\<rparr>) \<and>
   (\<exists>r files' evs.
      process_clip
        (example_env\<lparr>ce_enhance := EnhReturned False, ce_copy := [Some (OSError ''busy'')]\<rparr>)
        example_clip 0 no_files = Some (r, files', evs) \<and>
      EvUploadCall ''temp_clips/c1.mp4'' (Some (''temp_clips/c1_thumbnail.png'', ''frame''))
        \<in> set evs \<and>
      (r_status r = ''success'' \<or> r_status r = ''failed'')) \<and>
   \<not> fallback_copy_succeeds example_disk_full \<and>
   (\<exists>r files' evs e.
      process_clip example_disk_full example_clip 0 no_files = Some (r, files', evs) \<and>
      r_status r = ''error'' \<and> r_error r = Some (StrOf e) \<and> \<not> list_ex is_upload_event evs)"
proof -
  let ?a = "example_env\<lparr>ce_enhance := EnhReturned False, ce_copy := [Some (OSError ''busy'')]\<rparr>"
  let ?f1 = "no_files(''temp_clips/c1.mp4'' \<mapsto> ''video'')"
  let ?f2 = "?f1(''temp_clips/c1_frame.png'' \<mapsto> ''frame'')"
  have st: "time_to_seconds (start_time_of example_clip) = Inr 600"
    and t: "time_to_seconds (thumbnail_timestamp_of example_clip) = Inr 630"
    by (simp_all add: example_clip_fields example_times)
  have fr: "?f2 (frame_path_of (clip_id_of example_clip 0)) = Some ''frame''"
    by (simp add: example_clip_fields)
  have wa: "\<exists>r files' evs. process_clip ?a example_clip 0 no_files = Some (r, files', evs) \<and>
      EvUploadCall ''temp_clips/c1.mp4'' (Some (''temp_clips/c1_thumbnail.png'', ''frame''))
        \<in> set evs \<and>
      (r_status r = ''success'' \<or> r_status r = ''failed'')"
  proof -
    have d: "download_clip_segment ?a no_files (start_time_of example_clip)
        (end_time_of example_clip) (video_path_of (clip_id_of example_clip 0)) = Inr (True, ?f1)"
      by (simp add: example_clip_fields example_download_ok example_env_def)
    have cp: "snd (capture_thumbnail_frame ?a ?f1 (video_path_of (clip_id_of example_clip 0))
        ''00:00:30'' (frame_path_of (clip_id_of example_clip 0))) = ?f2"
      by (simp add: capture_files example_clip_fields written_def example_env_def)
    have e: "ce_enhance ?a \<noteq> EnhReturned True \<or>
        \<not> path_exists (written ?f2 (thumbnail_path_of (clip_id_of example_clip 0))
               (ce_enhance_file ?a)) (thumbnail_path_of (clip_id_of example_clip 0))"
      by simp
    have u: "resumable_upload (ue_chunks (ce_upload ?a)) 0 \<noteq> None"
      by (simp add: example_env_def example_upload_def)
    from enhancer_failure_absorbed [OF d st t example_relative_thumb cp fr e u]
      example_enhancer_worlds(1)
    show ?thesis by (simp add: example_clip_fields)
  qed
  have wb: "\<exists>r files' evs e.
      process_clip example_disk_full example_clip 0 no_files = Some (r, files', evs) \<and>
      r_status r = ''error'' \<and> r_error r = Some (StrOf e) \<and> \<not> list_ex is_upload_event evs"
  proof -
    have d: "download_clip_segment example_disk_full no_files (start_time_of example_clip)
        (end_time_of example_clip) (video_path_of (clip_id_of example_clip 0)) = Inr (True, ?f1)"
      by (simp add: example_clip_fields example_download_ok example_env_def example_disk_full_def)
    have cp: "snd (capture_thumbnail_frame example_disk_full ?f1
        (video_path_of (clip_id_of example_clip 0)) ''00:00:30''
        (frame_path_of (clip_id_of example_clip 0))) = ?f2"
      by (simp add: capture_files example_clip_fields written_def example_env_def
          example_disk_full_def)
    have e: "ce_enhance example_disk_full \<noteq> EnhReturned True \<or>
        \<not> path_exists (written ?f2 (thumbnail_path_of (clip_id_of example_clip 0))
               (ce_enhance_file example_disk_full)) (thumbnail_path_of (clip_id_of example_clip 0))"
      by (simp add: example_disk_full_def)
    have u: "resumable_upload (ue_chunks (ce_upload example_disk_full)) 0 \<noteq> None"
      by (simp add: example_env_def example_upload_def example_disk_full_def)
    from enhancer_failure_absorbed [OF d st t example_relative_thumb cp fr e u]
      example_enhancer_worlds(2)
    show ?thesis by blast
  qed
  from wa wb example_enhancer_worlds show ?thesis by blast
qed




section \<open>The batch runner: facts\<close>

lemma run_batch_results:
  assumes "\<forall>j < length clips. resumable_upload (ue_chunks (ce_upload (envs (i + j)))) 0 \<noteq> None"
  shows "\<exists>results files' evs.
           run_batch envs clips i total_clips files = Some (results, files', evs) \<and>
           length results = length clips \<and>
           (\<forall>j < length clips.
              r_clip_id (results ! j) = clip_id_of (clips ! j) (i + j) \<and>
              r_title (results ! j) = cd_title (clips ! j) \<and>
              r_status (results ! j) \<in> set [''success'', ''failed'', ''error''])"
  using assms
proof (induction clips arbitrary: i files)
  case Nil
  then show ?case by simp
next
  case (Cons c rest)
  from Cons.prems have "resumable_upload (ue_chunks (ce_upload (envs i))) 0 \<noteq> None"
    by auto
  from process_clip_returns [OF this, of c i files]
  obtain r files1 evs where pc: "process_clip (envs i) c i files = Some (r, files1, evs)"
    and r: "r_clip_id r = clip_id_of c i" "r_title r = cd_title c"
      "r_status r \<in> set [''success'', ''failed'', ''error'']"
    by blast
  have "\<forall>j < length rest. resumable_upload (ue_chunks (ce_upload (envs (Suc i + j)))) 0 \<noteq> None"
  proof (intro allI impI)
    fix j assume "j < length rest"
    then have "Suc j < length (c # rest)" by simp
    with Cons.prems have "resumable_upload (ue_chunks (ce_upload (envs (i + Suc j)))) 0 \<noteq> None"
      by blast
    then show "resumable_upload (ue_chunks (ce_upload (envs (Suc i + j)))) 0 \<noteq> None" by simp
  qed
  from Cons.IH [OF this, of files1]
  obtain results files2 evs2 where
    rb: "run_batch envs rest (Suc i) total_clips files1 = Some (results, files2, evs2)"
    and len: "length results = length rest"
    and each: "\<forall>j < length rest.
        r_clip_id (results ! j) = clip_id_of (rest ! j) (Suc i + j) \<and>
        r_title (results ! j) = cd_title (rest ! j) \<and>
        r_status (results ! j) \<in> set [''success'', ''failed'', ''error'']"
    by blast
  have run: "\<exists>files' evs'. run_batch envs (c # rest) i total_clips files =
      Some (r # results, files', evs')"
    using pc rb by (simp add: Let_def)
  have all: "\<forall>j < length (c # rest).
      r_clip_id ((r # results) ! j) = clip_id_of ((c # rest) ! j) (i + j) \<and>
      r_title ((r # results) ! j) = cd_title ((c # rest) ! j) \<and>
      r_status ((r # results) ! j) \<in> set [''success'', ''failed'', ''error'']"
  proof (intro allI impI)
    fix j assume j: "j < length (c # rest)"
    show "r_clip_id ((r # results) ! j) = clip_id_of ((c # rest) ! j) (i + j) \<and>
      r_title ((r # results) ! j) = cd_title ((c # rest) ! j) \<and>
      r_status ((r # results) ! j) \<in> set [''success'', ''failed'', ''error'']"
    proof (cases j)
      case 0
      with r show ?thesis by simp
    next
      case (Suc k)
      with j have "k < length rest" by simp
      with each Suc show ?thesis by simp
    qed
  qed
  from run obtain files' evs' where
    "run_batch envs (c # rest) i total_clips files = Some (r # results, files', evs')" by blast
  with len all show ?case by (intro exI [of _ "r # results"] exI [of _ files'] exI [of _ evs']) simp
qed

lemma count_statuses:
  "\<forall>j < length rs. r_status (rs ! j) \<in> set [''success'', ''failed'', ''error''] \<Longrightarrow>
   length (filter (\<lambda>r. r_status r = ''success'') rs) +
   length (filter (\<lambda>r. r_status r \<in> set [''failed'', ''error'']) rs) = length rs"
proof (induction rs)
  case Nil
  then show ?case by simp
next
  case (Cons r rs)
  from Cons.prems have "r_status r \<in> set [''success'', ''failed'', ''error'']" by auto
  moreover have "\<forall>j < length rs. r_status (rs ! j) \<in> set [''success'', ''failed'', ''error'']"
    using Cons.prems by auto
  ultimately show ?case using Cons.IH by auto
qed

lemma count_by_status:
  "length (filter (\<lambda>r. r_status r = v) rs) = count_list (map r_status rs) v"
  by (induction rs) simp_all

lemma count_failed_or_error:
  "length (filter (\<lambda>r. r_status r \<in> set [''failed'', ''error'']) rs) =
   count_list (map r_status rs) ''failed'' + count_list (map r_status rs) ''error''"
  by (induction rs) auto

text \<open>
  C1. For a list of \<open>N\<close> clips, each of whose uploads returns, the loop of \<open>main\<close>
  yields \<open>N\<close> outcomes, the outcome at each position being the one of the clip at that
  position. In the summary \<open>total_clips\<close> is \<open>N\<close>, \<open>successful\<close> is the number of
  outcomes with the status \<open>success\<close>, \<open>failed\<close> is the number of outcomes with the
  status \<open>failed\<close> plus the number of those with the status \<open>error\<close>, and
  \<open>successful + failed = total_clips\<close>.
\<close>

theorem batch_summary_complete:
  assumes "\<forall>j < length clips. resumable_upload (ue_chunks (ce_upload (envs j))) 0 \<noteq> None"
  shows "\<exists>results files' evs.
           run_batch envs clips 0 (length clips) files = Some (results, files', evs) \<and>
           sm_clips (save_processing_log results) = results \<and>
           length (sm_clips (save_processing_log results)) = length clips \<and>
           (\<forall>j < length clips.
              r_clip_id (sm_clips (save_processing_log results) ! j) = clip_id_of (clips ! j) j \<and>
              r_title (sm_clips (save_processing_log results) ! j) = cd_title (clips ! j)) \<and>
           sm_total_clips (save_processing_log results) = length clips \<and>
           sm_successful (save_processing_log results) =
             count_list (map r_status results) ''success'' \<and>
           sm_failed (save_processing_log results) =
             count_list (map r_status results) ''failed'' +
             count_list (map r_status results) ''error'' \<and>
           sm_successful (save_processing_log results) + sm_failed (save_processing_log results) =
             sm_total_clips (save_processing_log results)"
proof -
  from assms have "\<forall>j < length clips.
      resumable_upload (ue_chunks (ce_upload (envs (0 + j)))) 0 \<noteq> None" by simp
  from run_batch_results [OF this, of "length clips" files]
  obtain results files' evs where
    rb: "run_batch envs clips 0 (length clips) files = Some (results, files', evs)"
    and len: "length results = length clips"
    and each: "\<forall>j < length clips.
        r_clip_id (results ! j) = clip_id_of (clips ! j) (0 + j) \<and>
        r_title (results ! j) = cd_title (clips ! j) \<and>
        r_status (results ! j) \<in> set [''success'', ''failed'', ''error'']"
    by blast
  from each len have "\<forall>j < length results.
      r_status (results ! j) \<in> set [''success'', ''failed'', ''error'']" by simp
  then have cnt: "length (filter (\<lambda>r. r_status r = ''success'') results) +
      length (filter (\<lambda>r. r_status r \<in> set [''failed'', ''error'']) results) = length results"
    by (rule count_statuses)
  show ?thesis
  proof (intro exI conjI)
    show "run_batch envs clips 0 (length clips) files = Some (results, files', evs)" by (rule rb)
    show "sm_clips (save_processing_log results) = results"
      by (simp add: save_processing_log_def)
    show "length (sm_clips (save_processing_log results)) = length clips"
      using len by (simp add: save_processing_log_def)
    show "\<forall>j < length clips.
        r_clip_id (sm_clips (save_processing_log results) ! j) = clip_id_of (clips ! j) j \<and>
        r_title (sm_clips (save_processing_log results) ! j) = cd_title (clips ! j)"
      using each by (simp add: save_processing_log_def)
    show "sm_total_clips (save_processing_log results) = length clips"
      using len by (simp add: save_processing_log_def)
    show "sm_successful (save_processing_log results) =
        count_list (map r_status results) ''success''"
      by (simp add: save_processing_log_def count_by_status)
    show "sm_failed (save_processing_log results) =
        count_list (map r_status results) ''failed'' + count_list (map r_status results) ''error''"
      using count_failed_or_error [of results] by (simp add: save_processing_log_def)
    show "sm_successful (save_processing_log results) + sm_failed (save_processing_log results) =
        sm_total_clips (save_processing_log results)"
      using cnt by (simp add: save_processing_log_def)
  qed
qed

lemma example_batch_statuses:
  "map r_status (fst (the (run_batch example_world example_batch 0 2 no_files))) =
     [''success'', ''failed'']"
  by code_simp

theorem batch_summary_complete_witness:
  "resumable_upload (ue_chunks (ce_upload (example_world 0))) 0 \<noteq> None \<and>
   resumable_upload (ue_chunks (ce_upload (example_world 1))) 0 \<noteq> None \<and>
   (\<exists>results files' evs.
      run_batch example_world example_batch 0 2 no_files = Some (results, files', evs) \<and>
      length (sm_clips (save_processing_log results)) = 2 \<and>
      r_clip_id (sm_clips (save_processing_log results) ! 0) = ''c1'' \<and>
      r_clip_id (sm_clips (save_processing_log results) ! 1) = ''clip_1'' \<and>
      sm_total_clips (save_processing_log results) = 2 \<and>
      sm_successful (save_processing_log results) = 1 \<and>
      sm_failed (save_processing_log results) = 1)"
proof -
  have h: "\<forall>j < length example_batch.
      resumable_upload (ue_chunks (ce_upload (example_world j))) 0 \<noteq> None"
    by (simp add: example_world_def example_env_def example_upload_def)
  have l: "length example_batch = 2" by (simp add: example_batch_def)
  have i0: "clip_id_of (example_batch ! 0) 0 = ''c1''"
    by (simp add: example_batch_def example_clip_fields)
  have "dec 1 = ''1''" by code_simp
  then have i1: "clip_id_of (example_batch ! 1) 1 = ''clip_1''"
    by (simp add: example_batch_def clip_id_of_def get_or_def)
  from batch_summary_complete [OF h, of no_files]
  obtain results files' evs where
    a: "run_batch example_world example_batch 0 (length example_batch) no_files =
          Some (results, files', evs)"
    and b: "length (sm_clips (save_processing_log results)) = length example_batch"
    and c: "\<forall>j < length example_batch.
        r_clip_id (sm_clips (save_processing_log results) ! j) = clip_id_of (example_batch ! j) j \<and>
        r_title (sm_clips (save_processing_log results) ! j) = cd_title (example_batch ! j)"
    and d: "sm_total_clips (save_processing_log results) = length example_batch"
    and s: "sm_successful (save_processing_log results) =
        count_list (map r_status results) ''success''"
    and f: "sm_failed (save_processing_log results) =
        count_list (map r_status results) ''failed'' + count_list (map r_status results) ''error''"
    by (elim exE conjE) (rule that)
  from a l example_batch_statuses have m: "map r_status results = [''success'', ''failed'']"
    by simp
  from s m have s1: "sm_successful (save_processing_log results) = 1" by simp
  from f m have f1: "sm_failed (save_processing_log results) = 1" by simp
  from c l have "r_clip_id (sm_clips (save_processing_log results) ! 0) =
      clip_id_of (example_batch ! 0) 0" by simp
  moreover from c l have "r_clip_id (sm_clips (save_processing_log results) ! 1) =
      clip_id_of (example_batch ! 1) 1" by simp
  moreover have "resumable_upload (ue_chunks (ce_upload (example_world 0))) 0 \<noteq> None"
    and "resumable_upload (ue_chunks (ce_upload (example_world 1))) 0 \<noteq> None"
    using h l by simp_all
  ultimately show ?thesis using a b d l i0 i1 s1 f1 by auto
qed

end
